theory Spec2Isabelle
  imports Main
begin

section \<open>JavaScript values\<close>

text \<open>
  The ledger of \<^verbatim>\<open>BlockChain.js\<close> is untyped JavaScript. The values that flow through it
  are modelled by one datatype: \<open>undefined\<close>, \<open>null\<close>, \<open>NaN\<close>, the integers, strings,
  arrays and plain objects (an association list of own properties, in insertion order,
  one entry per name).
  Numbers are the integers and \<open>NaN\<close>: JavaScript computes exactly on integers of
  magnitude up to \<open>2^53\<close>; fractions and infinities have no counterpart here. Objects
  are compared by structure, so the model is about runs whose map keys are primitives.
\<close>

datatype jsval =
    Undefined
  | Null
  | NaN
  | Num int
  | Str string
  | Arr "jsval list"
  | Obj "(string \<times> jsval) list"

datatype error = TypeError | UnsignedTransaction

text \<open>Decimal digits of a natural number, and \<open>Number.prototype.toString\<close> on an integer.\<close>

fun digits :: "nat \<Rightarrow> string" where
  "digits n = (if n < 10 then [''0123456789'' ! n] else digits (n div 10) @ [''0123456789'' ! (n mod 10)])"

declare digits.simps [simp del]

definition show_int :: "int \<Rightarrow> string" where
  "show_int i = (if i < 0 then CHR ''-'' # digits (nat (- i)) else digits (nat i))"

fun join_comma :: "string list \<Rightarrow> string" where
  "join_comma [] = []"
| "join_comma [s] = s"
| "join_comma (s # t # r) = s @ CHR '','' # join_comma (t # r)"

text \<open>
  \<open>ToString\<close>: what string concatenation makes of a value. An array prints its elements
  joined by commas, \<open>null\<close> and \<open>undefined\<close> elements as the empty string; a plain
  object prints as \<open>[object Object]\<close>.
\<close>

fun to_string :: "jsval \<Rightarrow> string" where
  "to_string Undefined = ''undefined''"
| "to_string Null = ''null''"
| "to_string NaN = ''NaN''"
| "to_string (Num i) = show_int i"
| "to_string (Str s) = s"
| "to_string (Arr xs) =
     join_comma (map (\<lambda>x. if x = Undefined \<or> x = Null then [] else to_string x) xs)"
| "to_string (Obj ps) = ''[object Object]''"

text \<open>
  \<open>ToNumber\<close>, with \<open>None\<close> for \<open>NaN\<close>. A string is read as a decimal integer literal
  with an optional sign, between optional blanks; the empty string reads as 0. Literals
  with a fraction, an exponent or a radix prefix denote numbers outside this model.
\<close>

definition is_blank :: "char \<Rightarrow> bool" where
  "is_blank c = (c = CHR '' '' \<or> c = CHR 0x09 \<or> c = CHR 0x0A \<or> c = CHR 0x0B \<or> c = CHR 0x0C
     \<or> c = CHR 0x0D)"

definition is_digit :: "char \<Rightarrow> bool" where
  "is_digit c = (c \<in> set ''0123456789'')"

definition digit_val :: "char \<Rightarrow> int" where
  "digit_val c = int (of_char c) - 48"

definition read_digits :: "string \<Rightarrow> int option" where
  "read_digits s =
     (if s \<noteq> [] \<and> list_all is_digit s then Some (foldl (\<lambda>a c. 10 * a + digit_val c) 0 s) else None)"

definition trim :: "string \<Rightarrow> string" where
  "trim s = rev (dropWhile is_blank (rev (dropWhile is_blank s)))"

definition string_to_number :: "string \<Rightarrow> int option" where
  "string_to_number s =
     (case trim s of
        [] \<Rightarrow> Some 0
      | c # r \<Rightarrow>
          if c = CHR ''-'' then map_option uminus (read_digits r)
          else if c = CHR ''+'' then read_digits r
          else read_digits (c # r))"

fun to_number :: "jsval \<Rightarrow> int option" where
  "to_number Undefined = None"
| "to_number Null = Some 0"
| "to_number NaN = None"
| "to_number (Num i) = Some i"
| "to_number (Str s) = string_to_number s"
| "to_number (Arr xs) = string_to_number (to_string (Arr xs))"
| "to_number (Obj ps) = None"

fun is_text :: "jsval \<Rightarrow> bool" where
  "is_text (Str s) = True"
| "is_text (Arr xs) = True"
| "is_text (Obj ps) = True"
| "is_text v = False"

text \<open>The operators \<open>+\<close> and \<open>-\<close>: \<open>+\<close> concatenates as soon as one side is not a number.\<close>

definition js_add :: "jsval \<Rightarrow> jsval \<Rightarrow> jsval" where
  "js_add a b =
     (if is_text a \<or> is_text b then Str (to_string a @ to_string b)
      else (case (to_number a, to_number b) of
              (Some x, Some y) \<Rightarrow> Num (x + y)
            | _ \<Rightarrow> NaN))"

definition js_sub :: "jsval \<Rightarrow> jsval \<Rightarrow> jsval" where
  "js_sub a b =
     (case (to_number a, to_number b) of
        (Some x, Some y) \<Rightarrow> Num (x - y)
      | _ \<Rightarrow> NaN)"

fun truthy :: "jsval \<Rightarrow> bool" where
  "truthy Undefined = False"
| "truthy Null = False"
| "truthy NaN = False"
| "truthy (Num i) = (i \<noteq> 0)"
| "truthy (Str s) = (s \<noteq> [])"
| "truthy v = True"

text \<open>
  Property access \<open>v.k\<close>: a \<open>TypeError\<close> on \<open>undefined\<close> and \<open>null\<close>, the own property
  of an object, and \<open>undefined\<close> otherwise (none of the names the ledger reads is a
  property of a number, a string or an array).
\<close>

fun get_prop :: "jsval \<Rightarrow> string \<Rightarrow> error + jsval" where
  "get_prop Undefined k = Inl TypeError"
| "get_prop Null k = Inl TypeError"
| "get_prop (Obj ps) k = Inr (case map_of ps k of None \<Rightarrow> Undefined | Some v \<Rightarrow> v)"
| "get_prop v k = Inr Undefined"

text \<open>
  The two library functions the ledger calls and does not define: the SHA-256 digest in
  hexadecimal of Node's \<open>crypto\<close>, and \<open>JSON.stringify\<close> (applied to arrays and objects
  only). Every function below that hashes takes them as a parameter.
\<close>

record runtime =
  sha256_hex :: "string \<Rightarrow> string"
  json_stringify :: "jsval \<Rightarrow> string"

section \<open>Transactions and blocks\<close>

record transaction =
  tx_type :: jsval
  tx_data :: jsval
  tx_timestamp :: jsval
  signature :: jsval
  transactionId :: jsval

text \<open>A transaction as \<open>JSON.stringify\<close> sees it: its own properties in the order the
  constructor assigns them.\<close>

definition tx_object :: "transaction \<Rightarrow> jsval" where
  "tx_object t = Obj [(''type'', tx_type t), (''data'', tx_data t), (''timestamp'', tx_timestamp t),
     (''signature'', signature t), (''transactionId'', transactionId t)]"

text \<open>\<open>generateTransactionId\<close>, for the object payloads and clock readings the ledger's own
  operations pass.\<close>

definition generateTransactionId :: "runtime \<Rightarrow> jsval \<Rightarrow> int \<Rightarrow> string" where
  "generateTransactionId rt d ts = sha256_hex rt (json_stringify rt d @ show_int ts)"

definition new_Transaction :: "runtime \<Rightarrow> string \<Rightarrow> jsval \<Rightarrow> int \<Rightarrow> transaction" where
  "new_Transaction rt ty d ts =
     \<lparr>tx_type = Str ty, tx_data = d, tx_timestamp = Num ts, signature = Null,
      transactionId = Str (generateTransactionId rt d ts)\<rparr>"

record block =
  timestamp :: int
  transactions :: "transaction list"
  previousHash :: string
  hash :: string
  nonce :: jsval

definition calculateHash :: "runtime \<Rightarrow> block \<Rightarrow> string" where
  "calculateHash rt b =
     sha256_hex rt (previousHash b @ show_int (timestamp b)
       @ json_stringify rt (Arr (map tx_object (transactions b))) @ to_string (nonce b))"

text \<open>
  The constructor assigns \<open>timestamp\<close>, \<open>transactions\<close> and \<open>previousHash\<close>, then
  \<open>hash = calculateHash()\<close>, and only then \<open>nonce = 0\<close>: the hash is computed while
  \<open>nonce\<close> is still \<open>undefined\<close>.
\<close>

definition new_Block :: "runtime \<Rightarrow> int \<Rightarrow> transaction list \<Rightarrow> string \<Rightarrow> block" where
  "new_Block rt ts txs prev =
     (let b0 = \<lparr>timestamp = ts, transactions = txs, previousHash = prev, hash = [], nonce = Undefined\<rparr>;
          b1 = b0\<lparr>hash := calculateHash rt b0\<rparr>
      in b1\<lparr>nonce := Num 0\<rparr>)"

text \<open>\<open>nonce++\<close>, exact while the nonce stays below \<open>2^53\<close>.\<close>

definition js_incr :: "jsval \<Rightarrow> jsval" where
  "js_incr v = (case to_number v of None \<Rightarrow> NaN | Some n \<Rightarrow> Num (n + 1))"

text \<open>
  \<open>mineBlock\<close>: the loop has no bound, so the model is a partial function; \<open>None\<close> is a
  search that never ends. \<open>hash.substring(0, d)\<close> is \<open>take d\<close>, and
  \<open>Array(d + 1).join("0")\<close> is \<open>d\<close> zeros. \<open>mine_step\<close> is the body of the loop.
\<close>

definition mine_step :: "runtime \<Rightarrow> block \<Rightarrow> block" where
  "mine_step rt b = (let b1 = b\<lparr>nonce := js_incr (nonce b)\<rparr> in b1\<lparr>hash := calculateHash rt b1\<rparr>)"

partial_function (option) mineBlock :: "runtime \<Rightarrow> nat \<Rightarrow> block \<Rightarrow> block option" where
  "mineBlock rt d b =
     (if take d (hash b) \<noteq> replicate d CHR ''0''
      then mineBlock rt d (mine_step rt b)
      else Some b)"

definition createGenesisBlock :: "runtime \<Rightarrow> int \<Rightarrow> block" where
  "createGenesisBlock rt now = new_Block rt now [] ''0''"

section \<open>The store\<close>

record product =
  p_id :: jsval
  p_name :: jsval
  category :: jsval
  p_unit :: jsval
  quantity :: jsval
  price :: jsval
  history :: "jsval list"

definition new_Product :: "jsval \<Rightarrow> jsval \<Rightarrow> jsval \<Rightarrow> jsval \<Rightarrow> jsval \<Rightarrow> jsval \<Rightarrow> product" where
  "new_Product i n c u initialQuantity p =
     \<lparr>p_id = i, p_name = n, category = c, p_unit = u, quantity = initialQuantity, price = p,
      history = []\<rparr>"

record snapshot =
  snap_timestamp :: int
  blockHeight :: nat
  snap_products :: "jsval list"

text \<open>
  A \<open>Map\<close> is an association list in insertion order with one entry per key: \<open>set\<close> on a
  key that is present replaces the value in place. A \<open>Set\<close> is a list without repetition,
  in insertion order; \<open>new Set(array)\<close> adds the elements one by one.
\<close>

fun map_set :: "'k \<Rightarrow> 'v \<Rightarrow> ('k \<times> 'v) list \<Rightarrow> ('k \<times> 'v) list" where
  "map_set k v [] = [(k, v)]"
| "map_set k v (e # r) = (if fst e = k then (fst e, v) # r else e # map_set k v r)"

definition set_add :: "'a \<Rightarrow> 'a list \<Rightarrow> 'a list" where
  "set_add x xs = (if x \<in> set xs then xs else xs @ [x])"

definition new_Set :: "'a list \<Rightarrow> 'a list" where
  "new_Set xs = fold set_add xs []"

definition new_Map :: "('k \<times> 'v) list \<Rightarrow> ('k \<times> 'v) list" where
  "new_Map es = fold (\<lambda>e m. map_set (fst e) (snd e) m) es []"

record shopchain =
  chain :: "block list"
  difficulty :: nat
  pendingTransactions :: "transaction list"
  products :: "(jsval \<times> product) list"
  productCategories :: "jsval list"
  inventorySnapshots :: "snapshot list"

text \<open>
  A call returns a store, or throws: \<open>Inl (e, s)\<close> is the exception \<open>e\<close> together with
  the store \<open>s\<close> as the call has left it when the exception was raised.
\<close>

type_synonym outcome = "(error \<times> shopchain) + shopchain"

definition new_ShopChain :: "runtime \<Rightarrow> int \<Rightarrow> shopchain" where
  "new_ShopChain rt now =
     \<lparr>chain = [createGenesisBlock rt now], difficulty = 2, pendingTransactions = [],
      products = [], productCategories = [], inventorySnapshots = []\<rparr>"

text \<open>\<open>chain[chain.length - 1]\<close>, which is \<open>undefined\<close> on an empty chain.\<close>

definition getLatestBlock :: "shopchain \<Rightarrow> block option" where
  "getLatestBlock s = (if chain s = [] then None else Some (last (chain s)))"

subsection \<open>Submitting transactions\<close>

text \<open>
  Each submission reads the clock twice: once for the payload's \<open>timestamp\<close>, once for the
  transaction's. The readings are parameters. A submission returns the store and the
  transaction identifier.
\<close>

definition addProduct :: "runtime \<Rightarrow> jsval \<Rightarrow> int \<Rightarrow> int \<Rightarrow> shopchain \<Rightarrow> shopchain \<times> jsval" where
  "addProduct rt productData now1 now2 s =
     (let t = new_Transaction rt ''PRODUCT_ADD''
                (Obj [(''product'', productData), (''timestamp'', Num now1)]) now2
      in (s\<lparr>pendingTransactions := pendingTransactions s @ [t]\<rparr>, transactionId t))"

definition updateProductPrice ::
  "runtime \<Rightarrow> jsval \<Rightarrow> jsval \<Rightarrow> jsval \<Rightarrow> int \<Rightarrow> int \<Rightarrow> shopchain \<Rightarrow> shopchain \<times> jsval" where
  "updateProductPrice rt productId newPrice reason now1 now2 s =
     (let t = new_Transaction rt ''PRODUCT_UPDATE''
                (Obj [(''productId'', productId), (''updateType'', Str ''PRICE''),
                      (''oldPrice'', (case map_of (products s) productId of
                                        None \<Rightarrow> Undefined | Some p \<Rightarrow> price p)),
                      (''newPrice'', newPrice), (''reason'', reason), (''timestamp'', Num now1)]) now2
      in (s\<lparr>pendingTransactions := pendingTransactions s @ [t]\<rparr>, transactionId t))"

definition recordInventoryMovement ::
  "runtime \<Rightarrow> jsval \<Rightarrow> jsval \<Rightarrow> jsval \<Rightarrow> jsval \<Rightarrow> int \<Rightarrow> int \<Rightarrow> shopchain \<Rightarrow> shopchain \<times> jsval" where
  "recordInventoryMovement rt productId qty ty reason now1 now2 s =
     (let t = new_Transaction rt ''INVENTORY_UPDATE''
                (Obj [(''productId'', productId), (''quantity'', qty), (''movementType'', ty),
                      (''reason'', reason), (''timestamp'', Num now1)]) now2
      in (s\<lparr>pendingTransactions := pendingTransactions s @ [t]\<rparr>, transactionId t))"

definition addTransaction :: "transaction \<Rightarrow> shopchain \<Rightarrow> outcome" where
  "addTransaction t s =
     (if \<not> truthy (signature t) then Inl (UnsignedTransaction, s)
      else Inr (s\<lparr>pendingTransactions := pendingTransactions s @ [t]\<rparr>))"

subsection \<open>The state reducer\<close>

text \<open>
  \<open>or_throw\<close> passes an exception on. \<open>thrown_at s\<close> is a property access that, when it
  throws, leaves the store \<open>s\<close> behind. \<open>read\<close> is a property read on a value that an
  earlier read has shown to be neither \<open>undefined\<close> nor \<open>null\<close>.
\<close>

definition or_throw :: "'e + 'a \<Rightarrow> ('a \<Rightarrow> 'e + 'b) \<Rightarrow> 'e + 'b" where
  "or_throw m f = (case m of Inl e \<Rightarrow> Inl e | Inr x \<Rightarrow> f x)"

definition thrown_at :: "shopchain \<Rightarrow> error + 'a \<Rightarrow> (error \<times> shopchain) + 'a" where
  "thrown_at s m = (case m of Inl e \<Rightarrow> Inl (e, s) | Inr x \<Rightarrow> Inr x)"

definition read :: "jsval \<Rightarrow> string \<Rightarrow> jsval" where
  "read v k = (case get_prop v k of Inl e \<Rightarrow> Undefined | Inr x \<Rightarrow> x)"

definition handleProductAdd :: "jsval \<Rightarrow> shopchain \<Rightarrow> outcome" where
  "handleProductAdd d s =
     or_throw (thrown_at s (get_prop d ''product'')) (\<lambda>pr.
     or_throw (thrown_at s (get_prop pr ''id'')) (\<lambda>i.
       Inr (s\<lparr>products := map_set i
                 (new_Product i (read pr ''name'') (read pr ''category'') (read pr ''unit'')
                    (read pr ''initialQuantity'') (read pr ''price''))
                 (products s),
               productCategories := set_add (read pr ''category'') (productCategories s)\<rparr>)))"

definition handleProductUpdate :: "jsval \<Rightarrow> shopchain \<Rightarrow> outcome" where
  "handleProductUpdate d s =
     or_throw (thrown_at s (get_prop d ''productId'')) (\<lambda>i.
       case map_of (products s) i of
         None \<Rightarrow> Inr s
       | Some p \<Rightarrow>
           if read d ''updateType'' = Str ''PRICE''
           then Inr (s\<lparr>products := map_set i
                      (p\<lparr>history := history p @
                            [Obj [(''type'', Str ''PRICE_CHANGE''), (''oldValue'', price p),
                                  (''newValue'', read d ''newPrice''),
                                  (''timestamp'', read d ''timestamp''),
                                  (''reason'', read d ''reason'')]],
                         price := read d ''newPrice''\<rparr>)
                      (products s)\<rparr>)
           else Inr s)"

definition handleInventoryUpdate :: "jsval \<Rightarrow> shopchain \<Rightarrow> outcome" where
  "handleInventoryUpdate d s =
     or_throw (thrown_at s (get_prop d ''productId'')) (\<lambda>i.
       case map_of (products s) i of
         None \<Rightarrow> Inr s
       | Some p \<Rightarrow>
           (let oldQuantity = quantity p;
                m = read d ''movementType'';
                q = (if m = Str ''IN'' then js_add (quantity p) (read d ''quantity'')
                     else if m = Str ''OUT'' then js_sub (quantity p) (read d ''quantity'')
                     else if m = Str ''ADJUST'' then read d ''quantity''
                     else quantity p)
            in Inr (s\<lparr>products := map_set i
                      (p\<lparr>quantity := q,
                         history := history p @
                            [Obj [(''type'', Str ''QUANTITY_CHANGE''), (''oldValue'', oldQuantity),
                                  (''newValue'', q), (''movement'', m),
                                  (''reason'', read d ''reason''),
                                  (''timestamp'', read d ''timestamp'')]]\<rparr>)
                      (products s)\<rparr>)))"

text \<open>\<open>for (const item of soldProducts)\<close>: an array yields its elements, a string its
  characters; nothing else in this model is iterable.\<close>

fun iterate :: "jsval \<Rightarrow> error + jsval list" where
  "iterate (Arr xs) = Inr xs"
| "iterate (Str s) = Inr (map (\<lambda>c. Str [c]) s)"
| "iterate v = Inl TypeError"

fun sell_items :: "jsval \<Rightarrow> jsval list \<Rightarrow> shopchain \<Rightarrow> outcome" where
  "sell_items d [] s = Inr s"
| "sell_items d (item # r) s =
     (case get_prop item ''id'' of
        Inl e \<Rightarrow> Inl (e, s)
      | Inr i \<Rightarrow>
          sell_items d r
            (case map_of (products s) i of
               None \<Rightarrow> s
             | Some p \<Rightarrow>
                 s\<lparr>products := map_set i
                      (p\<lparr>quantity := js_sub (quantity p) (read item ''quantity''),
                         history := history p @
                            [Obj [(''type'', Str ''SALE''), (''quantity'', read item ''quantity''),
                                  (''price'', read item ''price''),
                                  (''timestamp'', read d ''timestamp''),
                                  (''orderId'', read d ''orderId'')]]\<rparr>)
                      (products s)\<rparr>))"

definition handleSale :: "jsval \<Rightarrow> shopchain \<Rightarrow> outcome" where
  "handleSale d s =
     or_throw (thrown_at s (get_prop d ''products'')) (\<lambda>soldProducts.
     or_throw (thrown_at s (iterate soldProducts)) (\<lambda>items. sell_items d items s))"

text \<open>The body of the \<open>switch\<close> in \<open>updateState\<close>, for one transaction.\<close>

definition apply_transaction :: "transaction \<Rightarrow> shopchain \<Rightarrow> outcome" where
  "apply_transaction t s =
     (if tx_type t = Str ''PRODUCT_ADD'' then handleProductAdd (tx_data t) s
      else if tx_type t = Str ''PRODUCT_UPDATE'' then handleProductUpdate (tx_data t) s
      else if tx_type t = Str ''INVENTORY_UPDATE'' then handleInventoryUpdate (tx_data t) s
      else if tx_type t = Str ''SALE'' then handleSale (tx_data t) s
      else Inr s)"

fun apply_transactions :: "transaction list \<Rightarrow> shopchain \<Rightarrow> outcome" where
  "apply_transactions [] s = Inr s"
| "apply_transactions (t # ts) s =
     (case apply_transaction t s of Inl e \<Rightarrow> Inl e | Inr s1 \<Rightarrow> apply_transactions ts s1)"

subsection \<open>Snapshots\<close>

definition shouldCreateSnapshot :: "int \<Rightarrow> shopchain \<Rightarrow> bool" where
  "shouldCreateSnapshot now s =
     (length (chain s) mod 100 = 0 \<or>
      (length (inventorySnapshots s) > 0 \<and>
       now - snap_timestamp (last (inventorySnapshots s)) > 86400000))"

definition createInventorySnapshot :: "int \<Rightarrow> shopchain \<Rightarrow> shopchain" where
  "createInventorySnapshot now s =
     s\<lparr>inventorySnapshots := inventorySnapshots s @
         [\<lparr>snap_timestamp = now, blockHeight = length (chain s),
           snap_products = map (\<lambda>e. Obj [(''id'', fst e), (''quantity'', quantity (snd e)),
                                          (''price'', price (snd e))]) (products s)\<rparr>]\<rparr>"

text \<open>\<open>updateState\<close>; \<open>now1\<close> is the clock as \<open>shouldCreateSnapshot\<close> reads it, \<open>now2\<close> as
  \<open>createInventorySnapshot\<close> does.\<close>

definition updateState :: "int \<Rightarrow> int \<Rightarrow> block \<Rightarrow> shopchain \<Rightarrow> outcome" where
  "updateState now1 now2 b s =
     or_throw (apply_transactions (transactions b) s) (\<lambda>s1.
       let s2 = s1\<lparr>productCategories :=
                    new_Set (productCategories s1 @ map (\<lambda>e. category (snd e)) (products s1))\<rparr>
       in Inr (if shouldCreateSnapshot now1 s2 then createInventorySnapshot now2 s2 else s2))"

subsection \<open>Mining\<close>

text \<open>
  \<open>minePendingTransactions\<close>; \<open>now0\<close> is the clock reading that stamps the block. Reading
  \<open>.hash\<close> of the latest block of an empty chain is a \<open>TypeError\<close>. \<open>None\<close> is a search
  for the nonce that does not end. The block is pushed before \<open>updateState\<close> runs and the
  pool is cleared after it: when \<open>updateState\<close> throws, the store that is left has the
  new block, the pool as it was and the catalog as far as the reducer got.
\<close>

definition minePendingTransactions ::
  "runtime \<Rightarrow> int \<Rightarrow> int \<Rightarrow> int \<Rightarrow> shopchain \<Rightarrow> outcome option" where
  "minePendingTransactions rt now0 now1 now2 s =
     (case getLatestBlock s of
        None \<Rightarrow> Some (Inl (TypeError, s))
      | Some latest \<Rightarrow>
          (case mineBlock rt (difficulty s) (new_Block rt now0 (pendingTransactions s) (hash latest)) of
             None \<Rightarrow> None
           | Some b \<Rightarrow>
               Some (or_throw (updateState now1 now2 b (s\<lparr>chain := chain s @ [b]\<rparr>))
                       (\<lambda>s1. Inr (s1\<lparr>pendingTransactions := []\<rparr>)))))"

subsection \<open>Queries\<close>

text \<open>\<open>products.get(id)?.quantity || 0\<close>.\<close>

definition getProductStock :: "jsval \<Rightarrow> shopchain \<Rightarrow> jsval" where
  "getProductStock i s =
     (let q = (case map_of (products s) i of None \<Rightarrow> Undefined | Some p \<Rightarrow> quantity p)
      in if truthy q then q else Num 0)"

subsection \<open>Sessions\<close>

text \<open>
  A session is a list of calls on one store. An exception ends it, as in the menu loop,
  which catches nothing; the outcome keeps the store that the throwing call has left.
\<close>

datatype command =
    AddProduct jsval int int
  | UpdateProductPrice jsval jsval jsval int int
  | RecordInventoryMovement jsval jsval jsval jsval int int
  | AddTransaction transaction
  | Mine int int int

fun exec :: "runtime \<Rightarrow> command \<Rightarrow> shopchain \<Rightarrow> outcome option" where
  "exec rt (AddProduct pd n1 n2) s = Some (Inr (fst (addProduct rt pd n1 n2 s)))"
| "exec rt (UpdateProductPrice i p r n1 n2) s = Some (Inr (fst (updateProductPrice rt i p r n1 n2 s)))"
| "exec rt (RecordInventoryMovement i q ty r n1 n2) s =
     Some (Inr (fst (recordInventoryMovement rt i q ty r n1 n2 s)))"
| "exec rt (AddTransaction t) s = Some (addTransaction t s)"
| "exec rt (Mine n0 n1 n2) s = minePendingTransactions rt n0 n1 n2 s"

fun run :: "runtime \<Rightarrow> command list \<Rightarrow> shopchain \<Rightarrow> outcome option" where
  "run rt [] s = Some (Inr s)"
| "run rt (c # cs) s =
     (case exec rt c s of
        None \<Rightarrow> None
      | Some (Inl e) \<Rightarrow> Some (Inl e)
      | Some (Inr s1) \<Rightarrow> run rt cs s1)"

section \<open>Persistence\<close>

text \<open>
  \<open>saveToFile\<close> writes \<open>JSON.stringify(data)\<close> and \<open>loadFromFile\<close> reads it back with
  \<open>JSON.parse\<close>. The model keeps the document the text encodes, not the text:
  \<open>json_value v\<close> is \<open>JSON.parse(JSON.stringify(v))\<close>. \<open>JSON.stringify\<close> writes \<open>NaN\<close> as
  \<open>null\<close>, writes \<open>undefined\<close> as \<open>null\<close> inside an array and leaves out a property
  whose value is \<open>undefined\<close>.
\<close>

fun json_value :: "jsval \<Rightarrow> jsval" where
  "json_value Undefined = Undefined"
| "json_value Null = Null"
| "json_value NaN = Null"
| "json_value (Num i) = Num i"
| "json_value (Str s) = Str s"
| "json_value (Arr xs) = Arr (map (\<lambda>x. if x = Undefined then Null else json_value x) xs)"
| "json_value (Obj ps) =
     Obj (map (\<lambda>e. (fst e, json_value (snd e))) (filter (\<lambda>e. snd e \<noteq> Undefined) ps))"

definition json_element :: "jsval \<Rightarrow> jsval" where
  "json_element x = (if x = Undefined then Null else json_value x)"

text \<open>
  The class instances, written and read back. A property that was left out reads as
  \<open>undefined\<close> again, so a field of a record is mapped by \<open>json_value\<close>.
\<close>

definition json_transaction :: "transaction \<Rightarrow> transaction" where
  "json_transaction t =
     \<lparr>tx_type = json_value (tx_type t), tx_data = json_value (tx_data t),
      tx_timestamp = json_value (tx_timestamp t), signature = json_value (signature t),
      transactionId = json_value (transactionId t)\<rparr>"

definition json_block :: "block \<Rightarrow> block" where
  "json_block b =
     \<lparr>timestamp = timestamp b, transactions = map json_transaction (transactions b),
      previousHash = previousHash b, hash = hash b, nonce = json_value (nonce b)\<rparr>"

definition json_product :: "product \<Rightarrow> product" where
  "json_product p =
     \<lparr>p_id = json_value (p_id p), p_name = json_value (p_name p),
      category = json_value (category p), p_unit = json_value (p_unit p),
      quantity = json_value (quantity p), price = json_value (price p),
      history = map json_element (history p)\<rparr>"

definition json_snapshot :: "snapshot \<Rightarrow> snapshot" where
  "json_snapshot n =
     \<lparr>snap_timestamp = snap_timestamp n, blockHeight = blockHeight n,
      snap_products = map json_element (snap_products n)\<rparr>"

record saved_data =
  sd_chain :: "block list"
  sd_products :: "(jsval \<times> product) list"
  sd_productCategories :: "jsval list"
  sd_inventorySnapshots :: "snapshot list"

text \<open>
  The file \<open>blockchain_data.json\<close>: absent, present and not readable (permission denied),
  present with a text that \<open>JSON.parse\<close> rejects, or present with a document of the shape
  \<open>saveToFile\<close> writes.
\<close>

datatype storage = Missing | Unreadable | Malformed | Document saved_data

text \<open>\<open>saveToFile\<close>; \<open>ok\<close> tells whether \<open>fs.writeFile\<close> succeeds. A failure is caught and
  logged, and the file stays as it was.\<close>

definition saveToFile :: "shopchain \<Rightarrow> bool \<Rightarrow> storage \<Rightarrow> storage" where
  "saveToFile s ok f =
     (if ok
      then Document
        \<lparr>sd_chain = map json_block (chain s),
         sd_products = map (\<lambda>e. (json_element (fst e), json_product (snd e))) (products s),
         sd_productCategories = map json_element (productCategories s),
         sd_inventorySnapshots = map json_snapshot (inventorySnapshots s)\<rparr>
      else f)"

text \<open>\<open>loadFromFile\<close>: every failure of \<open>readFile\<close> or \<open>JSON.parse\<close> lands in the one
  \<open>catch\<close>, which logs it and returns.\<close>

definition loadFromFile :: "storage \<Rightarrow> shopchain \<Rightarrow> shopchain" where
  "loadFromFile f s =
     (case f of
        Document d \<Rightarrow>
          s\<lparr>chain := sd_chain d, products := new_Map (sd_products d),
            productCategories := new_Set (sd_productCategories d),
            inventorySnapshots := sd_inventorySnapshots d\<rparr>
      | _ \<Rightarrow> s)"

section \<open>Predicates of the specification\<close>

text \<open>A block is sealed at difficulty \<open>d\<close> when its hash starts with \<open>d\<close> zeros.\<close>

definition sealed :: "nat \<Rightarrow> block \<Rightarrow> bool" where
  "sealed d b = (take d (hash b) = replicate d CHR ''0'')"

definition leading_zeros :: "string \<Rightarrow> nat" where
  "leading_zeros h = length (takeWhile (\<lambda>c. c = CHR ''0'') h)"

text \<open>
  A difficulty is feasible for a block when some number \<open>k\<close> of nonce increments reaches
  a sealed block, the nonce staying among the integers JavaScript counts exactly.
\<close>

definition feasible :: "runtime \<Rightarrow> nat \<Rightarrow> block \<Rightarrow> bool" where
  "feasible rt d b =
     (\<exists>k n. nonce b = Num n \<and> 0 \<le> n \<and> n + int k \<le> 2 ^ 53 \<and> sealed d ((mine_step rt ^^ k) b))"

fun linked :: "block list \<Rightarrow> bool" where
  "linked [] = True"
| "linked [b] = True"
| "linked (a # b # r) = (previousHash b = hash a \<and> linked (b # r))"

text \<open>What the submissions leave alone.\<close>

definition ledger_kept :: "shopchain \<Rightarrow> shopchain \<Rightarrow> bool" where
  "ledger_kept s s1 =
     (chain s1 = chain s \<and> products s1 = products s \<and>
      productCategories s1 = productCategories s \<and> inventorySnapshots s1 = inventorySnapshots s)"

text \<open>
  Replay, in the words of the specification: all transactions of all blocks, from
  genesis and in block order, through the reducer, starting from the empty catalog. The
  result is the catalog: the products map and the category set.
\<close>

definition empty_store :: shopchain where
  "empty_store =
     \<lparr>chain = [], difficulty = 2, pendingTransactions = [], products = [],
      productCategories = [], inventorySnapshots = []\<rparr>"

definition catalog :: "shopchain \<Rightarrow> (jsval \<times> product) list \<times> jsval list" where
  "catalog s = (products s, productCategories s)"

definition replay :: "block list \<Rightarrow> error + ((jsval \<times> product) list \<times> jsval list)" where
  "replay c = map_sum fst catalog (apply_transactions (concat (map transactions c)) empty_store)"

text \<open>
  Values that \<open>JSON\<close> writes and reads back unchanged, and stores made of them. The
  keys of a \<open>Map\<close> and the elements of a \<open>Set\<close> are distinct by construction; the lists
  that model them have to say so.
\<close>

fun json_safe :: "jsval \<Rightarrow> bool" where
  "json_safe Undefined = False"
| "json_safe NaN = False"
| "json_safe (Arr xs) = list_all json_safe xs"
| "json_safe (Obj ps) = list_all (\<lambda>e. json_safe (snd e)) ps"
| "json_safe v = True"

definition safe_transaction :: "transaction \<Rightarrow> bool" where
  "safe_transaction t =
     (json_safe (tx_type t) \<and> json_safe (tx_data t) \<and> json_safe (tx_timestamp t) \<and>
      json_safe (signature t) \<and> json_safe (transactionId t))"

definition safe_block :: "block \<Rightarrow> bool" where
  "safe_block b = (list_all safe_transaction (transactions b) \<and> json_safe (nonce b))"

definition safe_product :: "product \<Rightarrow> bool" where
  "safe_product p =
     (json_safe (p_id p) \<and> json_safe (p_name p) \<and> json_safe (category p) \<and>
      json_safe (p_unit p) \<and> json_safe (quantity p) \<and> json_safe (price p) \<and>
      list_all json_safe (history p))"

definition safe_store :: "shopchain \<Rightarrow> bool" where
  "safe_store s =
     (list_all safe_block (chain s) \<and>
      list_all (\<lambda>e. json_safe (fst e) \<and> safe_product (snd e)) (products s) \<and>
      list_all json_safe (productCategories s) \<and>
      distinct (map fst (products s)) \<and> distinct (productCategories s))"

section \<open>A runtime to compute with\<close>

text \<open>
  A stand-in for the two library functions, small enough to run the model on concrete
  sessions. Its digest starts with two zeros exactly when the text ends in \<open>1\<close>, so a
  fresh block is sealed at difficulty 2 by the first nonce increment.
\<close>

definition demo_digest :: "string \<Rightarrow> string" where
  "demo_digest t =
     (if t \<noteq> [] \<and> last t = CHR ''1'' then ''00'' else ''9f'') @ show_int (int (length t))"

definition demo_runtime :: runtime where
  "demo_runtime = \<lparr>sha256_hex = demo_digest, json_stringify = to_string\<rparr>"

text \<open>What the reducer leaves alone.\<close>

definition same_ledger :: "shopchain \<Rightarrow> shopchain \<Rightarrow> bool" where
  "same_ledger s s1 =
     (chain s1 = chain s \<and> difficulty s1 = difficulty s \<and>
      pendingTransactions s1 = pendingTransactions s \<and>
      inventorySnapshots s1 = inventorySnapshots s)"

text \<open>The catalog of \<open>s\<close> with the rest of the store taken from \<open>l\<close>.\<close>

definition with_ledger :: "shopchain \<Rightarrow> shopchain \<Rightarrow> shopchain" where
  "with_ledger l s =
     s\<lparr>chain := chain l, difficulty := difficulty l,
       pendingTransactions := pendingTransactions l, inventorySnapshots := inventorySnapshots l\<rparr>"

text \<open>The category set has no repetition and holds the category of every product.\<close>

definition categories_cover :: "shopchain \<Rightarrow> bool" where
  "categories_cover s =
     (distinct (productCategories s) \<and>
      set (map (\<lambda>e. category (snd e)) (products s)) \<subseteq> set (productCategories s))"

section \<open>Hash of a freshly constructed block\<close>

lemma show_int_0: "show_int 0 = ''0''"
  by (simp add: show_int_def digits.simps)

text \<open>
  C1. Every block of the chain, the genesis block included, should store the hash that
  \<open>calculateHash\<close> recomputes from its fields. The genesis block does not: its stored hash
  is the digest of a text that ends in \<open>undefined\<close>, its recomputed hash the digest of the
  same text ending in \<open>0\<close>. The two agree only where the digest collides on these texts.
\<close>

theorem genesis_hash_uses_undefined_nonce:
  "hash (createGenesisBlock rt now) =
     sha256_hex rt (''0'' @ show_int now @ json_stringify rt (Arr []) @ ''undefined'')
   \<and> calculateHash rt (createGenesisBlock rt now) =
     sha256_hex rt (''0'' @ show_int now @ json_stringify rt (Arr []) @ ''0'')"
  by (simp add: createGenesisBlock_def new_Block_def calculateHash_def show_int_0)

section \<open>Sealing\<close>

lemma mine_step_fields:
  "transactions (mine_step rt b) = transactions b"
  "previousHash (mine_step rt b) = previousHash b"
  "timestamp (mine_step rt b) = timestamp b"
  by (simp_all add: mine_step_def Let_def)

lemma mineBlock_sealed: "sealed d b \<Longrightarrow> mineBlock rt d b = Some b"
  by (subst mineBlock.simps) (simp add: sealed_def)

lemma mineBlock_unsealed: "\<not> sealed d b \<Longrightarrow> mineBlock rt d b = mineBlock rt d (mine_step rt b)"
  by (subst mineBlock.simps) (simp add: sealed_def)

lemma mineBlock_funpow:
  "(\<forall>j<k. \<not> sealed d ((mine_step rt ^^ j) b)) \<Longrightarrow>
     mineBlock rt d b = mineBlock rt d ((mine_step rt ^^ k) b)"
proof (induction k)
  case 0
  show ?case by simp
next
  case (Suc k)
  then have "mineBlock rt d b = mineBlock rt d ((mine_step rt ^^ k) b)" by simp
  also have "\<dots> = mineBlock rt d (mine_step rt ((mine_step rt ^^ k) b))"
    using Suc.prems by (intro mineBlock_unsealed) simp
  finally show ?case by simp
qed

lemma mineBlock_Some:
  "mineBlock rt d b = Some b1 \<Longrightarrow> \<exists>k. b1 = (mine_step rt ^^ k) b \<and> sealed d b1"
proof (induction rule: mineBlock.raw_induct [rotated 1, consumes 1, case_names body])
  case (body f rt d b b1)
  show ?case
  proof (cases "sealed d b")
    case True
    with body(2) have "b1 = b" by (simp add: sealed_def)
    with True show ?thesis by (intro exI[of _ 0]) simp
  next
    case False
    with body(2) have "f rt d (mine_step rt b) = Some b1" by (simp add: sealed_def)
    then have "\<exists>k. b1 = (mine_step rt ^^ k) (mine_step rt b) \<and> sealed d b1" by (rule body(1))
    then obtain k where "b1 = (mine_step rt ^^ k) (mine_step rt b)" "sealed d b1" by blast
    then show ?thesis by (intro exI[of _ "Suc k"]) (simp add: funpow_swap1)
  qed
qed

lemma mineBlock_feasible:
  assumes "sealed d ((mine_step rt ^^ k) b)"
  shows "\<exists>b1. mineBlock rt d b = Some b1 \<and> sealed d b1"
proof -
  define m where "m = (LEAST j. sealed d ((mine_step rt ^^ j) b))"
  have s: "sealed d ((mine_step rt ^^ m) b)"
    unfolding m_def using assms by (rule LeastI)
  have "\<forall>j<m. \<not> sealed d ((mine_step rt ^^ j) b)"
    unfolding m_def using not_less_Least by blast
  then have "mineBlock rt d b = mineBlock rt d ((mine_step rt ^^ m) b)"
    by (rule mineBlock_funpow)
  with s show ?thesis by (simp add: mineBlock_sealed)
qed

lemma funpow_mine_step_fields:
  "transactions ((mine_step rt ^^ k) b) = transactions b \<and>
   previousHash ((mine_step rt ^^ k) b) = previousHash b \<and>
   timestamp ((mine_step rt ^^ k) b) = timestamp b"
  by (induction k) (simp_all add: mine_step_fields)


lemma take_replicate_takeWhile:
  "(take d h = replicate d c) = (d \<le> length (takeWhile (\<lambda>x. x = c) h))"
proof (induction h arbitrary: d)
  case Nil
  show ?case by auto
next
  case (Cons a h)
  show ?case
  proof (cases d)
    case 0
    then show ?thesis by simp
  next
    case (Suc e)
    with Cons show ?thesis by auto
  qed
qed

lemma sealed_leading_zeros: "sealed d b = (d \<le> leading_zeros (hash b))"
  by (simp add: sealed_def leading_zeros_def take_replicate_takeWhile)

text \<open>
  C5, as amended. For every block and every difficulty that is feasible for it, \<open>mineBlock\<close>
  terminates, and the hash it leaves starts with \<open>d\<close> zeros: it has at least \<open>d\<close>
  leading zeros. Sealing changes the nonce and the hash only.
\<close>

theorem mineBlock_terminates_sealed:
  assumes "feasible rt d b"
  shows "\<exists>b1. mineBlock rt d b = Some b1 \<and> take d (hash b1) = replicate d CHR ''0''
           \<and> d \<le> leading_zeros (hash b1)
           \<and> timestamp b1 = timestamp b \<and> transactions b1 = transactions b
           \<and> previousHash b1 = previousHash b"
proof -
  from assms obtain k where "sealed d ((mine_step rt ^^ k) b)"
    by (auto simp: feasible_def)
  then obtain b1 where m: "mineBlock rt d b = Some b1" and s: "sealed d b1"
    using mineBlock_feasible by blast
  from m obtain j where "b1 = (mine_step rt ^^ j) b"
    using mineBlock_Some by blast
  then have "timestamp b1 = timestamp b \<and> transactions b1 = transactions b
      \<and> previousHash b1 = previousHash b"
    by (simp add: funpow_mine_step_fields)
  with m s show ?thesis
    using sealed_leading_zeros [of d b1] by (simp add: sealed_def)
qed

lemma replicate_2: "replicate 2 c = [c, c]"
  by (simp add: numeral_2_eq_2)

lemma demo_new_Block_step:
  "sealed 2 (mine_step demo_runtime (new_Block demo_runtime ts txs prev))"
  by (simp add: sealed_def mine_step_def new_Block_def calculateHash_def demo_runtime_def
      demo_digest_def js_incr_def show_int_def digits.simps Let_def replicate_2)

lemma demo_feasible: "feasible demo_runtime 2 (new_Block demo_runtime ts txs prev)"
  unfolding feasible_def
  by (rule exI [of _ 1], rule exI [of _ 0]) (simp add: demo_new_Block_step, simp add: new_Block_def)

text \<open>C5, witness. The theorem at a fresh block of the demonstration runtime.\<close>

theorem mineBlock_terminates_sealed_witness:
  "feasible demo_runtime 2 (new_Block demo_runtime 5 [] ''0'') \<and>
   (\<exists>b1. mineBlock demo_runtime 2 (new_Block demo_runtime 5 [] ''0'') = Some b1
      \<and> take 2 (hash b1) = replicate 2 CHR ''0'' \<and> 2 \<le> leading_zeros (hash b1)
      \<and> timestamp b1 = 5 \<and> transactions b1 = [] \<and> previousHash b1 = ''0'')"
proof -
  have f: "feasible demo_runtime 2 (new_Block demo_runtime 5 [] ''0'')"
    by (rule demo_feasible)
  from mineBlock_terminates_sealed [OF f] f show ?thesis
    by (simp add: new_Block_def)
qed

text \<open>
  C5 as stated asks for exactly \<open>d\<close> leading zeros. The loop tests the first \<open>d\<close>
  characters only. The block that \<open>new Block(1700000005021, [], "0")\<close> builds has a
  SHA-256 hash with three leading zeros; at difficulty 2 the loop body never runs and
  the hash keeps its three zeros.
\<close>

theorem sealed_hash_may_have_more_zeros:
  "\<not> (\<forall>rt d b. feasible rt d b \<longrightarrow>
        (\<exists>b1. mineBlock rt d b = Some b1 \<and> leading_zeros (hash b1) = d))"
proof
  let ?b = "\<lparr>timestamp = 1700000005021, transactions = [], previousHash = ''0'',
     hash = ''000ce89180390657ca4992da5fc55cf6fe02cc97978fd22ba32f8007a4a8ea08'',
     nonce = Num 0\<rparr>"
  assume a: "\<forall>rt d b. feasible rt d b \<longrightarrow>
        (\<exists>b1. mineBlock rt d b = Some b1 \<and> leading_zeros (hash b1) = d)"
  have s: "sealed 2 ?b" by (simp add: sealed_def replicate_2)
  have "feasible demo_runtime 2 ?b"
    unfolding feasible_def
    by (rule exI [of _ 0], rule exI [of _ 0]) (simp add: s)
  with a obtain b1 where "mineBlock demo_runtime 2 ?b = Some b1" "leading_zeros (hash b1) = 2"
    by blast
  moreover have "mineBlock demo_runtime 2 ?b = Some ?b"
    using s by (rule mineBlock_sealed)
  ultimately have "leading_zeros (hash ?b) = 2" by simp
  then show False by (simp add: leading_zeros_def)
qed

section \<open>What the reducer leaves alone\<close>

lemma same_ledger_refl: "same_ledger s s"
  by (simp add: same_ledger_def)

lemma same_ledger_trans: "same_ledger s s1 \<Longrightarrow> same_ledger s1 s2 \<Longrightarrow> same_ledger s s2"
  by (simp add: same_ledger_def)

lemma handleProductAdd_ledger: "handleProductAdd d s = Inr s1 \<Longrightarrow> same_ledger s s1"
  by (auto simp: handleProductAdd_def or_throw_def same_ledger_def split: sum.splits)

lemma handleProductUpdate_ledger: "handleProductUpdate d s = Inr s1 \<Longrightarrow> same_ledger s s1"
  by (auto simp: handleProductUpdate_def or_throw_def same_ledger_def
      split: sum.splits option.splits if_splits)

lemma handleInventoryUpdate_ledger: "handleInventoryUpdate d s = Inr s1 \<Longrightarrow> same_ledger s s1"
  by (auto simp: handleInventoryUpdate_def or_throw_def same_ledger_def Let_def
      split: sum.splits option.splits)

lemma sell_items_ledger: "sell_items d items s = Inr s1 \<Longrightarrow> same_ledger s s1"
proof (induction items arbitrary: s)
  case Nil
  then show ?case by (simp add: same_ledger_def)
next
  case (Cons item r)
  from Cons.prems obtain i where
    r: "sell_items d r
          (case map_of (products s) i of
             None \<Rightarrow> s
           | Some p \<Rightarrow>
               s\<lparr>products := map_set i
                    (p\<lparr>quantity := js_sub (quantity p) (read item ''quantity''),
                       history := history p @
                          [Obj [(''type'', Str ''SALE''), (''quantity'', read item ''quantity''),
                                (''price'', read item ''price''),
                                (''timestamp'', read d ''timestamp''),
                                (''orderId'', read d ''orderId'')]]\<rparr>)
                    (products s)\<rparr>) = Inr s1"
    by (auto split: sum.splits)
  from Cons.IH [OF r] show ?case
    by (auto simp: same_ledger_def split: option.splits)
qed

lemma handleSale_ledger: "handleSale d s = Inr s1 \<Longrightarrow> same_ledger s s1"
  by (auto simp: handleSale_def or_throw_def split: sum.splits dest: sell_items_ledger)

lemma apply_transaction_ledger: "apply_transaction t s = Inr s1 \<Longrightarrow> same_ledger s s1"
  by (auto simp: apply_transaction_def same_ledger_refl split: if_splits
      dest: handleProductAdd_ledger handleProductUpdate_ledger handleInventoryUpdate_ledger
        handleSale_ledger)

lemma apply_transactions_ledger: "apply_transactions ts s = Inr s1 \<Longrightarrow> same_ledger s s1"
proof (induction ts arbitrary: s)
  case Nil
  then show ?case by (simp add: same_ledger_def)
next
  case (Cons t ts)
  from Cons.prems obtain s2 where a: "apply_transaction t s = Inr s2"
    and b: "apply_transactions ts s2 = Inr s1"
    by (auto split: sum.splits)
  from apply_transaction_ledger [OF a] Cons.IH [OF b] show ?case
    by (rule same_ledger_trans)
qed

lemma updateState_ledger:
  "updateState n1 n2 b s = Inr s1 \<Longrightarrow>
     chain s1 = chain s \<and> difficulty s1 = difficulty s \<and>
     pendingTransactions s1 = pendingTransactions s"
  by (auto simp: updateState_def or_throw_def Let_def createInventorySnapshot_def same_ledger_def
      split: sum.splits if_splits dest!: apply_transactions_ledger)

lemma mine_Inr:
  assumes "minePendingTransactions rt n0 n1 n2 s = Some (Inr s1)"
  shows "\<exists>b k. chain s \<noteq> [] \<and>
           b = (mine_step rt ^^ k) (new_Block rt n0 (pendingTransactions s) (hash (last (chain s)))) \<and>
           sealed (difficulty s) b \<and>
           chain s1 = chain s @ [b] \<and> pendingTransactions s1 = [] \<and>
           difficulty s1 = difficulty s"
proof -
  from assms have ne: "chain s \<noteq> []"
    by (auto simp: minePendingTransactions_def getLatestBlock_def split: if_splits)
  let ?nb = "new_Block rt n0 (pendingTransactions s) (hash (last (chain s)))"
  from assms ne obtain b s2 where m: "mineBlock rt (difficulty s) ?nb = Some b"
    and u: "updateState n1 n2 b (s\<lparr>chain := chain s @ [b]\<rparr>) = Inr s2"
    and e: "s1 = s2\<lparr>pendingTransactions := []\<rparr>"
    by (auto simp: minePendingTransactions_def getLatestBlock_def or_throw_def
        split: option.splits sum.splits)
  from mineBlock_Some [OF m] obtain k where "b = (mine_step rt ^^ k) ?nb" "sealed (difficulty s) b"
    by blast
  with updateState_ledger [OF u] e ne show ?thesis by auto
qed

lemma new_Block_fields:
  "transactions (new_Block rt ts txs prev) = txs"
  "previousHash (new_Block rt ts txs prev) = prev"
  "timestamp (new_Block rt ts txs prev) = ts"
  "nonce (new_Block rt ts txs prev) = Num 0"
  by (simp_all add: new_Block_def Let_def)


section \<open>Sessions\<close>

lemma exec_submission_ledger:
  assumes "\<forall>a b c. cmd \<noteq> Mine a b c" and "exec rt cmd s = Some (Inr s1)"
  shows "ledger_kept s s1 \<and> difficulty s1 = difficulty s"
  using assms
  by (cases cmd)
    (auto simp: ledger_kept_def addProduct_def updateProductPrice_def recordInventoryMovement_def
      addTransaction_def Let_def split: if_splits)

lemma run_invariant:
  assumes "run rt cs s0 = Some (Inr s)" and "P s0"
    and "\<And>c s s1. P s \<Longrightarrow> exec rt c s = Some (Inr s1) \<Longrightarrow> P s1"
  shows "P s"
  using assms(1,2)
proof (induction cs arbitrary: s0)
  case Nil
  then show ?case by simp
next
  case (Cons c cs)
  from Cons.prems(1) obtain s1 where e: "exec rt c s0 = Some (Inr s1)" and r: "run rt cs s1 = Some (Inr s)"
    by (auto split: option.splits sum.splits)
  from assms(3) [OF Cons.prems(2) e] have "P s1" .
  with Cons.IH r show ?case by blast
qed

lemma linked_snoc: "linked (c @ [b]) = (linked c \<and> (c \<noteq> [] \<longrightarrow> previousHash b = hash (last c)))"
  by (induction c rule: linked.induct) auto

lemma linked_nth:
  "linked c \<Longrightarrow> 0 < i \<Longrightarrow> i < length c \<Longrightarrow> previousHash (c ! i) = hash (c ! (i - 1))"
proof (induction c arbitrary: i rule: linked.induct)
  case 1
  then show ?case by simp
next
  case (2 b)
  then show ?case by simp
next
  case (3 a b r)
  show ?case
  proof (cases "i = 1")
    case True
    with 3 show ?thesis by simp
  next
    case False
    with 3(3) obtain j where j: "i = Suc j" "0 < j" by (cases i) auto
    with 3 have "previousHash ((b # r) ! j) = hash ((b # r) ! (j - 1))" by simp
    with j show ?thesis by (cases j) auto
  qed
qed

lemma funpow_mine_step_previousHash:
  "previousHash ((mine_step rt ^^ k) b) = previousHash b"
  by (simp add: funpow_mine_step_fields)

lemma mine_links:
  assumes "minePendingTransactions rt n0 n1 n2 s = Some (Inr s1)"
  shows "\<exists>b. chain s \<noteq> [] \<and> chain s1 = chain s @ [b] \<and> previousHash b = hash (last (chain s))
           \<and> transactions b = pendingTransactions s"
proof -
  from mine_Inr [OF assms] obtain b k where
    "chain s \<noteq> []"
    "b = (mine_step rt ^^ k) (new_Block rt n0 (pendingTransactions s) (hash (last (chain s))))"
    "chain s1 = chain s @ [b]"
    by blast
  then show ?thesis
    by (simp add: funpow_mine_step_fields new_Block_fields)
qed

lemma exec_linked:
  assumes "linked (chain s) \<and> chain s \<noteq> []" and "exec rt c s = Some (Inr s1)"
  shows "linked (chain s1) \<and> chain s1 \<noteq> []"
proof (cases "\<forall>a b e. c \<noteq> Mine a b e")
  case True
  from exec_submission_ledger [OF True assms(2)] assms(1) show ?thesis
    by (simp add: ledger_kept_def)
next
  case False
  then obtain n0 n1 n2 where "c = Mine n0 n1 n2" by blast
  with assms(2) have "minePendingTransactions rt n0 n1 n2 s = Some (Inr s1)" by simp
  from mine_links [OF this] assms(1) show ?thesis
    by (auto simp: linked_snoc)
qed

text \<open>
  C2. In every store that a session of submissions and minings reaches from a fresh
  store, each block but the first names the hash of its predecessor; and a mining call
  that returns has appended one block whose \<open>previousHash\<close> is the hash of the block that
  was the head of the chain.
\<close>

theorem chain_links_to_predecessor:
  "(run rt cs (new_ShopChain rt now) = Some (Inr s) \<longrightarrow>
      (\<forall>i. 0 < i \<and> i < length (chain s) \<longrightarrow>
         previousHash (chain s ! i) = hash (chain s ! (i - 1))))
   \<and> (minePendingTransactions rt n0 n1 n2 s0 = Some (Inr s1) \<longrightarrow>
      (\<exists>b. chain s1 = chain s0 @ [b] \<and> previousHash b = hash (last (chain s0))))"
proof (intro conjI impI allI)
  fix i
  assume r: "run rt cs (new_ShopChain rt now) = Some (Inr s)"
    and i: "0 < i \<and> i < length (chain s)"
  have "linked (chain (new_ShopChain rt now)) \<and> chain (new_ShopChain rt now) \<noteq> []"
    by (simp add: new_ShopChain_def)
  with r have "linked (chain s) \<and> chain s \<noteq> []"
    by (rule run_invariant) (rule exec_linked)
  with i show "previousHash (chain s ! i) = hash (chain s ! (i - 1))"
    by (simp add: linked_nth)
next
  assume "minePendingTransactions rt n0 n1 n2 s0 = Some (Inr s1)"
  from mine_links [OF this]
  show "\<exists>b. chain s1 = chain s0 @ [b] \<and> previousHash b = hash (last (chain s0))"
    by blast
qed


section \<open>Running sessions\<close>

lemma mine_feasible:
  assumes "chain s \<noteq> []"
    and "feasible rt (difficulty s) (new_Block rt n0 (pendingTransactions s) (hash (last (chain s))))"
  shows "\<exists>b. mineBlock rt (difficulty s)
               (new_Block rt n0 (pendingTransactions s) (hash (last (chain s)))) = Some b \<and>
           transactions b = pendingTransactions s \<and> previousHash b = hash (last (chain s)) \<and>
           timestamp b = n0 \<and> sealed (difficulty s) b \<and>
           minePendingTransactions rt n0 n1 n2 s =
             Some (or_throw (updateState n1 n2 b (s\<lparr>chain := chain s @ [b]\<rparr>))
                     (\<lambda>s1. Inr (s1\<lparr>pendingTransactions := []\<rparr>)))"
proof -
  let ?nb = "new_Block rt n0 (pendingTransactions s) (hash (last (chain s)))"
  from assms(2) obtain k where "sealed (difficulty s) ((mine_step rt ^^ k) ?nb)"
    by (auto simp: feasible_def)
  then obtain b where m: "mineBlock rt (difficulty s) ?nb = Some b" and sb: "sealed (difficulty s) b"
    using mineBlock_feasible by blast
  from mineBlock_Some [OF m] obtain j where "b = (mine_step rt ^^ j) ?nb" by blast
  then have "transactions b = pendingTransactions s \<and> previousHash b = hash (last (chain s)) \<and>
      timestamp b = n0"
    by (simp add: funpow_mine_step_fields new_Block_fields)
  with m sb assms(1) show ?thesis
    by (intro exI [of _ b]) (simp add: minePendingTransactions_def getLatestBlock_def)
qed

lemmas reducer_defs =
  updateState_def or_throw_def thrown_at_def apply_transaction_def handleProductAdd_def
  handleProductUpdate_def handleInventoryUpdate_def handleSale_def new_Product_def read_def
  new_Set_def set_add_def shouldCreateSnapshot_def createInventorySnapshot_def
  new_Transaction_def Let_def

lemma js_sub_Num: "js_sub (Num a) (Num b) = Num (a - b)"
  by (simp add: js_sub_def)

lemma js_sub_Undefined: "js_sub Undefined b = NaN"
  by (simp add: js_sub_def)

lemma js_sub_NaN: "js_sub NaN b = NaN"
  by (simp add: js_sub_def)

text \<open>
  The scenario of the specification, for any product data with the identifier \<open>P1\<close>: the
  stock after the two blocks is the product's \<open>initialQuantity\<close> minus 3. The two blocks
  that the session builds are the only ones that have to be feasible.
\<close>

lemma add_then_mine:
  assumes "feasible rt 2
      (new_Block rt m0
         [new_Transaction rt ''PRODUCT_ADD'' (Obj [(''product'', pd), (''timestamp'', Num a1)]) a2]
         (hash (createGenesisBlock rt t0)))"
    and "get_prop pd ''id'' = Inr i"
  shows "\<exists>b1. mineBlock rt 2
            (new_Block rt m0
               [new_Transaction rt ''PRODUCT_ADD'' (Obj [(''product'', pd), (''timestamp'', Num a1)]) a2]
               (hash (createGenesisBlock rt t0))) = Some b1
         \<and> minePendingTransactions rt m0 m1 m2 (fst (addProduct rt pd a1 a2 (new_ShopChain rt t0))) =
           Some (Inr \<lparr>chain = [createGenesisBlock rt t0, b1], difficulty = 2,
             pendingTransactions = [],
             products = [(i, new_Product i (read pd ''name'') (read pd ''category'') (read pd ''unit'')
                               (read pd ''initialQuantity'') (read pd ''price''))],
             productCategories = [read pd ''category''], inventorySnapshots = []\<rparr>)
         \<and> transactions b1 = pendingTransactions (fst (addProduct rt pd a1 a2 (new_ShopChain rt t0)))
         \<and> previousHash b1 = hash (createGenesisBlock rt t0)"
proof -
  define s1 where "s1 = fst (addProduct rt pd a1 a2 (new_ShopChain rt t0))"
  have c1: "chain s1 \<noteq> []" and d1: "difficulty s1 = 2"
    and l1: "last (chain s1) = createGenesisBlock rt t0"
    and p1: "pendingTransactions s1 =
      [new_Transaction rt ''PRODUCT_ADD'' (Obj [(''product'', pd), (''timestamp'', Num a1)]) a2]"
    by (simp_all add: s1_def addProduct_def new_ShopChain_def Let_def)
  from assms(1) have "feasible rt (difficulty s1)
      (new_Block rt m0 (pendingTransactions s1) (hash (last (chain s1))))"
    by (simp add: d1 l1 p1)
  from mine_feasible [OF c1 this, of m1 m2] obtain b1 where
    k1: "mineBlock rt (difficulty s1)
           (new_Block rt m0 (pendingTransactions s1) (hash (last (chain s1)))) = Some b1"
    and t1: "transactions b1 = pendingTransactions s1"
    and h1: "previousHash b1 = hash (last (chain s1))"
    and e1: "minePendingTransactions rt m0 m1 m2 s1 =
             Some (or_throw (updateState m1 m2 b1 (s1\<lparr>chain := chain s1 @ [b1]\<rparr>))
                     (\<lambda>s. Inr (s\<lparr>pendingTransactions := []\<rparr>)))"
    by (elim exE conjE) (rule that)
  have "minePendingTransactions rt m0 m1 m2 s1 =
           Some (Inr \<lparr>chain = [createGenesisBlock rt t0, b1], difficulty = 2,
             pendingTransactions = [],
             products = [(i, new_Product i (read pd ''name'') (read pd ''category'') (read pd ''unit'')
                               (read pd ''initialQuantity'') (read pd ''price''))],
             productCategories = [read pd ''category''], inventorySnapshots = []\<rparr>)"
    unfolding e1
    by (simp add: t1 assms(2) reducer_defs s1_def addProduct_def new_ShopChain_def)
  moreover have "previousHash b1 = hash (createGenesisBlock rt t0)"
    using h1 by (simp add: l1)
  moreover from k1 have "mineBlock rt 2
            (new_Block rt m0
               [new_Transaction rt ''PRODUCT_ADD'' (Obj [(''product'', pd), (''timestamp'', Num a1)]) a2]
               (hash (createGenesisBlock rt t0))) = Some b1"
    by (simp add: d1 l1 p1)
  ultimately show ?thesis
    using t1 unfolding s1_def by (intro exI [of _ b1] conjI)
qed

lemma scenario_runs:
  assumes "feasible rt 2
      (new_Block rt m0
         [new_Transaction rt ''PRODUCT_ADD'' (Obj [(''product'', pd), (''timestamp'', Num a1)]) a2]
         (hash (createGenesisBlock rt t0)))"
    and "\<And>b1. mineBlock rt 2
        (new_Block rt m0
           [new_Transaction rt ''PRODUCT_ADD'' (Obj [(''product'', pd), (''timestamp'', Num a1)]) a2]
           (hash (createGenesisBlock rt t0))) = Some b1 \<Longrightarrow>
      feasible rt 2
        (new_Block rt k0
           [new_Transaction rt ''INVENTORY_UPDATE''
              (Obj [(''productId'', Str ''P1''), (''quantity'', Num 3), (''movementType'', Str ''OUT''),
                    (''reason'', Str ''sold''), (''timestamp'', Num r1)]) r2]
           (hash b1))"
    and "get_prop pd ''id'' = Inr (Str ''P1'')"
  shows "\<exists>s b1 b2. run rt
           [AddProduct pd a1 a2, Mine m0 m1 m2,
            RecordInventoryMovement (Str ''P1'') (Num 3) (Str ''OUT'') (Str ''sold'') r1 r2,
            Mine k0 k1 k2]
           (new_ShopChain rt t0) = Some (Inr s)
         \<and> chain s = [createGenesisBlock rt t0, b1, b2]
         \<and> pendingTransactions s = []
         \<and> map fst (products s) = [Str ''P1'']
         \<and> map (\<lambda>e. quantity (snd e)) (products s) = [js_sub (read pd ''initialQuantity'') (Num 3)]"
proof -
  define s1 where "s1 = fst (addProduct rt pd a1 a2 (new_ShopChain rt t0))"
  define p0 where "p0 = new_Product (Str ''P1'') (read pd ''name'') (read pd ''category'')
     (read pd ''unit'') (read pd ''initialQuantity'') (read pd ''price'')"
  from add_then_mine [OF assms(1,3), of m1 m2] obtain b1 where
    k1: "mineBlock rt 2
        (new_Block rt m0
           [new_Transaction rt ''PRODUCT_ADD'' (Obj [(''product'', pd), (''timestamp'', Num a1)]) a2]
           (hash (createGenesisBlock rt t0))) = Some b1"
    and m1: "minePendingTransactions rt m0 m1 m2 (fst (addProduct rt pd a1 a2 (new_ShopChain rt t0))) =
           Some (Inr \<lparr>chain = [createGenesisBlock rt t0, b1], difficulty = 2,
             pendingTransactions = [],
             products = [(Str ''P1'', new_Product (Str ''P1'') (read pd ''name'') (read pd ''category'')
                 (read pd ''unit'') (read pd ''initialQuantity'') (read pd ''price''))],
             productCategories = [read pd ''category''], inventorySnapshots = []\<rparr>)"
    by (elim exE conjE) (rule that)
  define s2 where "s2 = \<lparr>chain = [createGenesisBlock rt t0, b1], difficulty = 2,
             pendingTransactions = [], products = [(Str ''P1'', p0)],
             productCategories = [read pd ''category''], inventorySnapshots = []\<rparr>"
  from m1 have m1: "minePendingTransactions rt m0 m1 m2 s1 = Some (Inr s2)"
    by (simp add: s1_def s2_def p0_def)
  define s3 where "s3 = fst (recordInventoryMovement rt (Str ''P1'') (Num 3) (Str ''OUT'') (Str ''sold'') r1 r2 s2)"
  have c3: "chain s3 \<noteq> []" and d3: "difficulty s3 = 2" and l3: "last (chain s3) = b1"
    and p3: "pendingTransactions s3 =
      [new_Transaction rt ''INVENTORY_UPDATE''
              (Obj [(''productId'', Str ''P1''), (''quantity'', Num 3), (''movementType'', Str ''OUT''),
                    (''reason'', Str ''sold''), (''timestamp'', Num r1)]) r2]"
    by (simp_all add: s3_def s2_def recordInventoryMovement_def Let_def)
  from assms(2) [OF k1] have "feasible rt (difficulty s3)
      (new_Block rt k0 (pendingTransactions s3) (hash (last (chain s3))))"
    by (simp add: d3 l3 p3)
  from mine_feasible [OF c3 this, of k1 k2] obtain b2 where
    t3: "transactions b2 = pendingTransactions s3"
    and e3: "minePendingTransactions rt k0 k1 k2 s3 =
             Some (or_throw (updateState k1 k2 b2 (s3\<lparr>chain := chain s3 @ [b2]\<rparr>))
                     (\<lambda>s. Inr (s\<lparr>pendingTransactions := []\<rparr>)))"
    by (elim exE conjE) (rule that)
  define s4 where "s4 = \<lparr>chain = [createGenesisBlock rt t0, b1, b2], difficulty = 2,
     pendingTransactions = [],
     products = [(Str ''P1'',
        p0\<lparr>quantity := js_sub (quantity p0) (Num 3),
           history := history p0 @
             [Obj [(''type'', Str ''QUANTITY_CHANGE''), (''oldValue'', quantity p0),
                   (''newValue'', js_sub (quantity p0) (Num 3)), (''movement'', Str ''OUT''),
                   (''reason'', Str ''sold''), (''timestamp'', Num r1)]]\<rparr>)],
     productCategories = [read pd ''category''], inventorySnapshots = []\<rparr>"
  have m3: "minePendingTransactions rt k0 k1 k2 s3 = Some (Inr s4)"
    unfolding e3
    by (simp add: t3 updateState_def or_throw_def thrown_at_def apply_transaction_def
        handleInventoryUpdate_def read_def new_Set_def set_add_def shouldCreateSnapshot_def
        new_Transaction_def Let_def s3_def s2_def s4_def p0_def new_Product_def
        recordInventoryMovement_def)
  have "run rt [AddProduct pd a1 a2, Mine m0 m1 m2,
            RecordInventoryMovement (Str ''P1'') (Num 3) (Str ''OUT'') (Str ''sold'') r1 r2,
            Mine k0 k1 k2] (new_ShopChain rt t0) = Some (Inr s4)"
    using m1 m3 by (simp add: s1_def [symmetric] s2_def [symmetric] s3_def [symmetric])
  moreover have "chain s4 = [createGenesisBlock rt t0, b1, b2]" "pendingTransactions s4 = []"
    "map fst (products s4) = [Str ''P1'']"
    "map (\<lambda>e. quantity (snd e)) (products s4) = [js_sub (read pd ''initialQuantity'') (Num 3)]"
    by (simp_all add: s4_def p0_def new_Product_def)
  ultimately show ?thesis
    by (intro exI [of _ s4] exI [of _ b1] exI [of _ b2] conjI)
qed

text \<open>The same at the demonstration runtime, where every fresh block is feasible.\<close>

lemma demo_add_then_mine:
  assumes "get_prop pd ''id'' = Inr i"
  shows "\<exists>b1. minePendingTransactions demo_runtime m0 m1 m2
             (fst (addProduct demo_runtime pd a1 a2 (new_ShopChain demo_runtime t0))) =
           Some (Inr \<lparr>chain = [createGenesisBlock demo_runtime t0, b1], difficulty = 2,
             pendingTransactions = [],
             products = [(i, new_Product i (read pd ''name'') (read pd ''category'') (read pd ''unit'')
                               (read pd ''initialQuantity'') (read pd ''price''))],
             productCategories = [read pd ''category''], inventorySnapshots = []\<rparr>)
         \<and> transactions b1 =
             pendingTransactions (fst (addProduct demo_runtime pd a1 a2 (new_ShopChain demo_runtime t0)))
         \<and> previousHash b1 = hash (createGenesisBlock demo_runtime t0)"
  using add_then_mine [OF demo_feasible assms, of m0 a1 a2 t0 m1 m2]
  by (elim exE conjE) (intro exI conjI)

lemma demo_scenario_runs:
  assumes "get_prop pd ''id'' = Inr (Str ''P1'')"
  shows "\<exists>s b1 b2. run demo_runtime
           [AddProduct pd a1 a2, Mine m0 m1 m2,
            RecordInventoryMovement (Str ''P1'') (Num 3) (Str ''OUT'') (Str ''sold'') r1 r2,
            Mine k0 k1 k2]
           (new_ShopChain demo_runtime t0) = Some (Inr s)
         \<and> chain s = [createGenesisBlock demo_runtime t0, b1, b2]
         \<and> pendingTransactions s = []
         \<and> map fst (products s) = [Str ''P1'']
         \<and> map (\<lambda>e. quantity (snd e)) (products s) = [js_sub (read pd ''initialQuantity'') (Num 3)]"
  by (rule scenario_runs [OF demo_feasible demo_feasible assms])

lemma stock_of_single:
  assumes "map fst (products s) = [i]" and "map (\<lambda>e. quantity (snd e)) (products s) = [q]"
  shows "getProductStock i s = (if truthy q then q else Num 0)"
proof -
  from assms obtain p where "products s = [(i, p)]" "quantity p = q"
    by (cases "products s") auto
  then show ?thesis by (simp add: getProductStock_def)
qed

text \<open>
  C4, as amended. The product data carries the stock under \<open>initialQuantity\<close>, the name
  \<open>handleProductAdd\<close> reads. Then, for all clock readings and every runtime for which
  difficulty 2 is feasible for the two blocks the session builds (the block of the
  product, and the block of the movement on top of whatever block the first search
  returns), the session runs to its end and the stock of \<open>P1\<close> is 7.
\<close>

theorem scenario_with_initialQuantity:
  assumes "feasible rt 2
      (new_Block rt m0
         [new_Transaction rt ''PRODUCT_ADD''
            (Obj [(''product'', Obj [(''id'', Str ''P1''), (''initialQuantity'', Num 10),
                                     (''price'', Num 5)]),
                  (''timestamp'', Num a1)]) a2]
         (hash (createGenesisBlock rt t0)))"
    and "\<And>b1. mineBlock rt 2
        (new_Block rt m0
           [new_Transaction rt ''PRODUCT_ADD''
              (Obj [(''product'', Obj [(''id'', Str ''P1''), (''initialQuantity'', Num 10),
                                       (''price'', Num 5)]),
                    (''timestamp'', Num a1)]) a2]
           (hash (createGenesisBlock rt t0))) = Some b1 \<Longrightarrow>
      feasible rt 2
        (new_Block rt k0
           [new_Transaction rt ''INVENTORY_UPDATE''
              (Obj [(''productId'', Str ''P1''), (''quantity'', Num 3), (''movementType'', Str ''OUT''),
                    (''reason'', Str ''sold''), (''timestamp'', Num r1)]) r2]
           (hash b1))"
  shows "\<exists>s. run rt
           [AddProduct (Obj [(''id'', Str ''P1''), (''initialQuantity'', Num 10), (''price'', Num 5)]) a1 a2,
            Mine m0 m1 m2,
            RecordInventoryMovement (Str ''P1'') (Num 3) (Str ''OUT'') (Str ''sold'') r1 r2,
            Mine k0 k1 k2]
           (new_ShopChain rt t0) = Some (Inr s)
         \<and> getProductStock (Str ''P1'') s = Num 7"
proof -
  let ?pd = "Obj [(''id'', Str ''P1''), (''initialQuantity'', Num 10), (''price'', Num 5)]"
  have g: "get_prop ?pd ''id'' = Inr (Str ''P1'')" by simp
  have "\<exists>s b1 b2. run rt
           [AddProduct ?pd a1 a2, Mine m0 m1 m2,
            RecordInventoryMovement (Str ''P1'') (Num 3) (Str ''OUT'') (Str ''sold'') r1 r2,
            Mine k0 k1 k2]
           (new_ShopChain rt t0) = Some (Inr s)
         \<and> chain s = [createGenesisBlock rt t0, b1, b2]
         \<and> pendingTransactions s = []
         \<and> map fst (products s) = [Str ''P1'']
         \<and> map (\<lambda>e. quantity (snd e)) (products s) = [js_sub (read ?pd ''initialQuantity'') (Num 3)]"
    by (rule scenario_runs [where pd = ?pd]) (rule assms(1), erule assms(2), rule g)
  then obtain s where r: "run rt
           [AddProduct ?pd a1 a2, Mine m0 m1 m2,
            RecordInventoryMovement (Str ''P1'') (Num 3) (Str ''OUT'') (Str ''sold'') r1 r2,
            Mine k0 k1 k2] (new_ShopChain rt t0) = Some (Inr s)"
    and k: "map fst (products s) = [Str ''P1'']"
    and q: "map (\<lambda>e. quantity (snd e)) (products s) = [js_sub (read ?pd ''initialQuantity'') (Num 3)]"
    by (elim exE conjE) (rule that)
  from stock_of_single [OF k q] have "getProductStock (Str ''P1'') s = Num 7"
    by (simp add: read_def js_sub_Num)
  with r show ?thesis by (intro exI [of _ s] conjI)
qed

text \<open>C4, witness. The theorem at the demonstration runtime, with both blocks feasible.\<close>

theorem scenario_with_initialQuantity_witness:
  "feasible demo_runtime 2
      (new_Block demo_runtime 1700000001000
         [new_Transaction demo_runtime ''PRODUCT_ADD''
            (Obj [(''product'', Obj [(''id'', Str ''P1''), (''initialQuantity'', Num 10),
                                     (''price'', Num 5)]),
                  (''timestamp'', Num 1700000000000)]) 1700000000000]
         (hash (createGenesisBlock demo_runtime 1699999999000)))
   \<and> (\<forall>b1. feasible demo_runtime 2
        (new_Block demo_runtime 1700000003000
           [new_Transaction demo_runtime ''INVENTORY_UPDATE''
              (Obj [(''productId'', Str ''P1''), (''quantity'', Num 3), (''movementType'', Str ''OUT''),
                    (''reason'', Str ''sold''), (''timestamp'', Num 1700000002000)]) 1700000002000]
           (hash b1)))
   \<and> (\<exists>s. run demo_runtime
           [AddProduct (Obj [(''id'', Str ''P1''), (''initialQuantity'', Num 10), (''price'', Num 5)])
              1700000000000 1700000000000,
            Mine 1700000001000 1700000001002 1700000001002,
            RecordInventoryMovement (Str ''P1'') (Num 3) (Str ''OUT'') (Str ''sold'')
              1700000002000 1700000002000,
            Mine 1700000003000 1700000003002 1700000003002]
           (new_ShopChain demo_runtime 1699999999000) = Some (Inr s)
         \<and> getProductStock (Str ''P1'') s = Num 7)"
proof (intro conjI allI)
  show "\<exists>s. run demo_runtime
           [AddProduct (Obj [(''id'', Str ''P1''), (''initialQuantity'', Num 10), (''price'', Num 5)])
              1700000000000 1700000000000,
            Mine 1700000001000 1700000001002 1700000001002,
            RecordInventoryMovement (Str ''P1'') (Num 3) (Str ''OUT'') (Str ''sold'')
              1700000002000 1700000002000,
            Mine 1700000003000 1700000003002 1700000003002]
           (new_ShopChain demo_runtime 1699999999000) = Some (Inr s)
         \<and> getProductStock (Str ''P1'') s = Num 7"
    by (rule scenario_with_initialQuantity [OF demo_feasible demo_feasible])
qed (rule demo_feasible)+

text \<open>
  C4 as stated passes \<open>{id: "P1", quantity: 10, price: 5}\<close>. \<open>handleProductAdd\<close> reads
  \<open>product.initialQuantity\<close>, which is \<open>undefined\<close>; taking 3 from it gives \<open>NaN\<close>, and
  \<open>getProductStock\<close> returns \<open>NaN || 0\<close>, that is 0 and not 7.
\<close>

theorem scenario_as_written_gives_0:
  "map_option (map_sum id (getProductStock (Str ''P1'')))
     (run demo_runtime
        [AddProduct (Obj [(''id'', Str ''P1''), (''quantity'', Num 10), (''price'', Num 5)])
           1700000000000 1700000000000,
         Mine 1700000001000 1700000001002 1700000001002,
         RecordInventoryMovement (Str ''P1'') (Num 3) (Str ''OUT'') (Str ''sold'')
           1700000002000 1700000002000,
         Mine 1700000003000 1700000003002 1700000003002]
        (new_ShopChain demo_runtime 1699999999000))
   = Some (Inr (Num 0))"
proof -
  let ?pd = "Obj [(''id'', Str ''P1''), (''quantity'', Num 10), (''price'', Num 5)]"
  have "get_prop ?pd ''id'' = Inr (Str ''P1'')" by simp
  from demo_scenario_runs [OF this, of 1700000000000 1700000000000
      1700000001000 1700000001002 1700000001002 1700000002000 1700000002000
      1700000003000 1700000003002 1700000003002 1699999999000]
  obtain s where r: "run demo_runtime
        [AddProduct ?pd 1700000000000 1700000000000,
         Mine 1700000001000 1700000001002 1700000001002,
         RecordInventoryMovement (Str ''P1'') (Num 3) (Str ''OUT'') (Str ''sold'')
           1700000002000 1700000002000,
         Mine 1700000003000 1700000003002 1700000003002]
        (new_ShopChain demo_runtime 1699999999000) = Some (Inr s)"
    and k: "map fst (products s) = [Str ''P1'']"
    and q: "map (\<lambda>e. quantity (snd e)) (products s) = [js_sub (read ?pd ''initialQuantity'') (Num 3)]"
    by (elim exE conjE) (rule that)
  from stock_of_single [OF k q] have "getProductStock (Str ''P1'') s = Num 0"
    by (simp add: read_def js_sub_Undefined)
  with r show ?thesis by simp
qed

text \<open>C2, witness. The theorem on the session of the scenario, and on a first mining call.\<close>

theorem chain_links_to_predecessor_witness:
  "\<exists>s s1. run demo_runtime
           [AddProduct (Obj [(''id'', Str ''P1''), (''initialQuantity'', Num 10), (''price'', Num 5)])
              1700000000000 1700000000000,
            Mine 1700000001000 1700000001002 1700000001002,
            RecordInventoryMovement (Str ''P1'') (Num 3) (Str ''OUT'') (Str ''sold'')
              1700000002000 1700000002000,
            Mine 1700000003000 1700000003002 1700000003002]
           (new_ShopChain demo_runtime 1699999999000) = Some (Inr s)
       \<and> length (chain s) = 3
       \<and> previousHash (chain s ! 1) = hash (chain s ! 0)
       \<and> previousHash (chain s ! 2) = hash (chain s ! 1)
       \<and> minePendingTransactions demo_runtime 1700000001000 1700000001002 1700000001002
           (fst (addProduct demo_runtime (Obj [(''id'', Str ''P1'')]) 1700000000000 1700000000000
                  (new_ShopChain demo_runtime 1699999999000))) = Some (Inr s1)
       \<and> (\<exists>b. chain s1 = [createGenesisBlock demo_runtime 1699999999000] @ [b]
              \<and> previousHash b = hash (createGenesisBlock demo_runtime 1699999999000))"
proof -
  let ?pd = "Obj [(''id'', Str ''P1''), (''initialQuantity'', Num 10), (''price'', Num 5)]"
  let ?cs = "[AddProduct ?pd 1700000000000 1700000000000,
            Mine 1700000001000 1700000001002 1700000001002,
            RecordInventoryMovement (Str ''P1'') (Num 3) (Str ''OUT'') (Str ''sold'')
              1700000002000 1700000002000,
            Mine 1700000003000 1700000003002 1700000003002]"
  let ?s0 = "fst (addProduct demo_runtime (Obj [(''id'', Str ''P1'')]) 1700000000000 1700000000000
                  (new_ShopChain demo_runtime 1699999999000))"
  have "get_prop ?pd ''id'' = Inr (Str ''P1'')" by simp
  from demo_scenario_runs [OF this, of 1700000000000 1700000000000
      1700000001000 1700000001002 1700000001002 1700000002000 1700000002000
      1700000003000 1700000003002 1700000003002 1699999999000]
  obtain s b1 b2 where r: "run demo_runtime ?cs (new_ShopChain demo_runtime 1699999999000) = Some (Inr s)"
    and c: "chain s = [createGenesisBlock demo_runtime 1699999999000, b1, b2]"
    by (elim exE conjE) (rule that)
  have "get_prop (Obj [(''id'', Str ''P1'')]) ''id'' = Inr (Str ''P1'')" by simp
  from demo_add_then_mine [OF this, of 1700000001000 1700000001002 1700000001002
      1700000000000 1700000000000 1699999999000]
  obtain s1 where m: "minePendingTransactions demo_runtime 1700000001000 1700000001002 1700000001002 ?s0
      = Some (Inr s1)"
    by (elim exE conjE) (rule that)
  have c0: "chain ?s0 = [createGenesisBlock demo_runtime 1699999999000]"
    by (simp add: addProduct_def new_ShopChain_def Let_def)
  note t = chain_links_to_predecessor [where rt = demo_runtime and cs = ?cs
      and now = 1699999999000 and s = s and ?s0.0 = ?s0 and ?s1.0 = s1
      and ?n0.0 = 1700000001000 and ?n1.0 = 1700000001002 and ?n2.0 = 1700000001002]
  from t r have l: "\<forall>i. 0 < i \<and> i < length (chain s) \<longrightarrow>
         previousHash (chain s ! i) = hash (chain s ! (i - 1))"
    by (elim conjE) simp
  from l [rule_format, of 1] l [rule_format, of 2] c
  have "previousHash (chain s ! 1) = hash (chain s ! 0)"
    "previousHash (chain s ! 2) = hash (chain s ! 1)"
    by simp_all
  moreover from t m c0
  have "\<exists>b. chain s1 = [createGenesisBlock demo_runtime 1699999999000] @ [b]
              \<and> previousHash b = hash (createGenesisBlock demo_runtime 1699999999000)"
    by (elim conjE) simp
  moreover have "length (chain s) = 3" using c by simp
  ultimately show ?thesis
    using r m by (intro exI [of _ s] exI [of _ s1] conjI)
qed

section \<open>Submissions\<close>






section \<open>The snapshot predicate\<close>

text \<open>
  C9. The snapshot predicate holds exactly when the length of the chain is a multiple of
  100, or there is a last snapshot and the clock is more than 24 hours (in milliseconds)
  past its timestamp.
\<close>

theorem shouldCreateSnapshot_iff:
  "shouldCreateSnapshot now s =
     (100 dvd length (chain s) \<or>
      (inventorySnapshots s \<noteq> [] \<and>
       now - snap_timestamp (last (inventorySnapshots s)) > 24 * 60 * 60 * 1000))"
  by (simp add: shouldCreateSnapshot_def dvd_eq_mod_eq_0)

text \<open>C9, witness. One millisecond past the day, the day exactly, no snapshot yet, and an empty chain.\<close>

theorem shouldCreateSnapshot_iff_witness:
  "shouldCreateSnapshot 86400001 (createInventorySnapshot 0 (new_ShopChain demo_runtime 0))
   \<and> \<not> shouldCreateSnapshot 86400000 (createInventorySnapshot 0 (new_ShopChain demo_runtime 0))
   \<and> \<not> shouldCreateSnapshot 86400001 (new_ShopChain demo_runtime 0)
   \<and> shouldCreateSnapshot 0 ((new_ShopChain demo_runtime 0)\<lparr>chain := []\<rparr>)"
  using shouldCreateSnapshot_iff [of 86400001 "createInventorySnapshot 0 (new_ShopChain demo_runtime 0)"]
    shouldCreateSnapshot_iff [of 86400000 "createInventorySnapshot 0 (new_ShopChain demo_runtime 0)"]
    shouldCreateSnapshot_iff [of 86400001 "new_ShopChain demo_runtime 0"]
    shouldCreateSnapshot_iff [of 0 "(new_ShopChain demo_runtime 0)\<lparr>chain := []\<rparr>"]
  by (simp add: createInventorySnapshot_def new_ShopChain_def)


section \<open>Loading\<close>

text \<open>
  C8, as amended. When the file is missing, cannot be read or does not parse,
  \<open>loadFromFile\<close> raises nothing and leaves the store as it was: a fresh store stays a
  store with the genesis block only and an empty catalog. Every such fault ends in the
  same \<open>catch\<close>, which logs the error it caught and returns; the store the caller gets is
  the one it gets for a missing file.
\<close>

theorem load_failure_keeps_store:
  assumes "f = Missing \<or> f = Unreadable \<or> f = Malformed"
  shows "loadFromFile f s = s
     \<and> loadFromFile f (new_ShopChain rt now) = new_ShopChain rt now
     \<and> chain (loadFromFile f (new_ShopChain rt now)) = [createGenesisBlock rt now]
     \<and> products (loadFromFile f (new_ShopChain rt now)) = []
     \<and> productCategories (loadFromFile f (new_ShopChain rt now)) = []
     \<and> loadFromFile f s = loadFromFile Missing s"
  using assms by (auto simp: loadFromFile_def new_ShopChain_def)

text \<open>C8, witness. The theorem for a file that cannot be read, and for one that does not parse.\<close>

theorem load_failure_keeps_store_witness:
  "(Unreadable = Missing \<or> Unreadable = Unreadable \<or> Unreadable = Malformed)
   \<and> loadFromFile Unreadable (new_ShopChain demo_runtime 1700000000000)
       = new_ShopChain demo_runtime 1700000000000
   \<and> chain (loadFromFile Unreadable (new_ShopChain demo_runtime 1700000000000))
       = [createGenesisBlock demo_runtime 1700000000000]
   \<and> loadFromFile Malformed (new_ShopChain demo_runtime 1700000000000)
       = loadFromFile Missing (new_ShopChain demo_runtime 1700000000000)"
proof -
  have h: "Unreadable = Missing \<or> Unreadable = Unreadable \<or> Unreadable = Malformed" by simp
  have g: "Malformed = Missing \<or> Malformed = Unreadable \<or> Malformed = Malformed" by simp
  from load_failure_keeps_store [OF h, of "new_ShopChain demo_runtime 1700000000000"
      demo_runtime 1700000000000]
    load_failure_keeps_store [OF g, of "new_ShopChain demo_runtime 1700000000000"
      demo_runtime 1700000000000]
  show ?thesis by (simp add: loadFromFile_def new_ShopChain_def)
qed

text \<open>
  C8 as stated wants a permission fault told apart from a missing file. The outcome of
  \<open>loadFromFile\<close> is the same for both.
\<close>

theorem permission_fault_not_told_apart:
  "\<not> (loadFromFile Unreadable (new_ShopChain demo_runtime 1700000000000)
        \<noteq> loadFromFile Missing (new_ShopChain demo_runtime 1700000000000))"
  by (simp add: loadFromFile_def)

section \<open>Saving and loading\<close>

lemma json_value_safe: "json_safe v \<Longrightarrow> json_value v = v"
proof (induction v)
  case (Arr xs)
  have "map (\<lambda>x. if x = Undefined then Null else json_value x) xs = xs"
  proof (rule map_idI)
    fix x assume x: "x \<in> set xs"
    with Arr.prems have s: "json_safe x" by (simp add: list_all_iff)
    then have "x \<noteq> Undefined" by auto
    with Arr.IH [OF x s] show "(if x = Undefined then Null else json_value x) = x" by simp
  qed
  then show ?case by simp
next
  case (Obj ps)
  have f: "filter (\<lambda>e. snd e \<noteq> Undefined) ps = ps"
  proof (rule filter_True)
    show "\<forall>e\<in>set ps. snd e \<noteq> Undefined"
    proof
      fix e assume "e \<in> set ps"
      with Obj.prems have "json_safe (snd e)" by (simp add: list_all_iff)
      then show "snd e \<noteq> Undefined" by auto
    qed
  qed
  have "map (\<lambda>e. (fst e, json_value (snd e))) ps = ps"
  proof (rule map_idI)
    fix e assume e: "e \<in> set ps"
    with Obj.prems have s: "json_safe (snd e)" by (simp add: list_all_iff)
    have "snd e \<in> Basic_BNFs.snds e" by (cases e) simp
    from Obj.IH [OF e this s] show "(fst e, json_value (snd e)) = e" by simp
  qed
  with f show ?case by simp
qed simp_all

lemma json_element_safe:
  assumes "json_safe v"
  shows "json_element v = v"
proof -
  from assms have "v \<noteq> Undefined" by auto
  with json_value_safe [OF assms] show ?thesis by (simp add: json_element_def)
qed

lemma map_json_element_safe: "list_all json_safe xs \<Longrightarrow> map json_element xs = xs"
  by (rule map_idI) (simp add: list_all_iff json_element_safe)

lemma json_transaction_safe: "safe_transaction t \<Longrightarrow> json_transaction t = t"
  by (simp add: safe_transaction_def json_transaction_def json_value_safe)

lemma json_block_safe: "safe_block b \<Longrightarrow> json_block b = b"
proof -
  assume s: "safe_block b"
  then have "map json_transaction (transactions b) = transactions b"
    by (intro map_idI) (simp add: safe_block_def list_all_iff json_transaction_safe)
  with s show ?thesis by (simp add: safe_block_def json_block_def json_value_safe)
qed

lemma json_product_safe: "safe_product p \<Longrightarrow> json_product p = p"
  by (simp add: safe_product_def json_product_def json_value_safe map_json_element_safe)

lemma map_set_fresh: "k \<notin> fst ` set m \<Longrightarrow> map_set k v m = m @ [(k, v)]"
  by (induction m) auto

lemma fold_map_set_distinct:
  "distinct (map fst (acc @ es)) \<Longrightarrow>
     fold (\<lambda>e m. map_set (fst e) (snd e) m) es acc = acc @ es"
proof (induction es arbitrary: acc)
  case Nil
  then show ?case by simp
next
  case (Cons e es)
  from Cons.prems have "fst e \<notin> fst ` set acc" by auto
  then have "map_set (fst e) (snd e) acc = acc @ [e]" by (simp add: map_set_fresh)
  moreover from Cons.prems have "distinct (map fst ((acc @ [e]) @ es))" by simp
  ultimately show ?case using Cons.IH [of "acc @ [e]"] by simp
qed

lemma new_Map_distinct: "distinct (map fst es) \<Longrightarrow> new_Map es = es"
  using fold_map_set_distinct [of "[]" es] by (simp add: new_Map_def)

lemma fold_set_add_distinct: "distinct (acc @ xs) \<Longrightarrow> fold set_add xs acc = acc @ xs"
proof (induction xs arbitrary: acc)
  case Nil
  then show ?case by simp
next
  case (Cons x xs)
  from Cons.prems have "set_add x acc = acc @ [x]" by (simp add: set_add_def)
  moreover from Cons.prems have "distinct ((acc @ [x]) @ xs)" by simp
  ultimately show ?case using Cons.IH [of "acc @ [x]"] by simp
qed

lemma new_Set_distinct: "distinct xs \<Longrightarrow> new_Set xs = xs"
  using fold_set_add_distinct [of "[]" xs] by (simp add: new_Set_def)

text \<open>
  C7, as amended. For every store whose chain, products and categories hold only values
  that \<open>JSON\<close> can write (no \<open>undefined\<close>, no \<open>NaN\<close>), saving and then loading into any
  store yields the same chain, the same products and the same categories, field for
  field.
\<close>

theorem save_then_load_restores:
  assumes "safe_store s"
  shows "chain (loadFromFile (saveToFile s True f) s0) = chain s
     \<and> products (loadFromFile (saveToFile s True f) s0) = products s
     \<and> productCategories (loadFromFile (saveToFile s True f) s0) = productCategories s"
proof -
  from assms have c: "map json_block (chain s) = chain s"
    by (intro map_idI) (simp add: safe_store_def list_all_iff json_block_safe)
  from assms have p: "map (\<lambda>e. (json_element (fst e), json_product (snd e))) (products s) = products s"
    by (intro map_idI) (auto simp: safe_store_def list_all_iff json_element_safe json_product_safe)
  from assms have g: "map json_element (productCategories s) = productCategories s"
    by (simp add: safe_store_def map_json_element_safe)
  from assms have d: "distinct (map fst (products s))" "distinct (productCategories s)"
    by (simp_all add: safe_store_def)
  show ?thesis
    by (simp add: loadFromFile_def saveToFile_def c p g d new_Map_distinct new_Set_distinct)
qed


text \<open>C7, witness. The theorem on a store with one product.\<close>

theorem save_then_load_restores_witness:
  "safe_store
     \<lparr>chain = [createGenesisBlock demo_runtime 1699999999000], difficulty = 2,
      pendingTransactions = [],
      products = [(Str ''P1'', new_Product (Str ''P1'') (Str ''Rice'') (Str ''grain'') (Str ''kg'')
                     (Num 10) (Num 5))],
      productCategories = [Str ''grain''], inventorySnapshots = []\<rparr>
   \<and> products (loadFromFile
        (saveToFile
           \<lparr>chain = [createGenesisBlock demo_runtime 1699999999000], difficulty = 2,
            pendingTransactions = [],
            products = [(Str ''P1'', new_Product (Str ''P1'') (Str ''Rice'') (Str ''grain'') (Str ''kg'')
                           (Num 10) (Num 5))],
            productCategories = [Str ''grain''], inventorySnapshots = []\<rparr> True Missing)
        (new_ShopChain demo_runtime 1700000002000))
      = [(Str ''P1'', new_Product (Str ''P1'') (Str ''Rice'') (Str ''grain'') (Str ''kg'')
                     (Num 10) (Num 5))]
   \<and> chain (loadFromFile
        (saveToFile
           \<lparr>chain = [createGenesisBlock demo_runtime 1699999999000], difficulty = 2,
            pendingTransactions = [],
            products = [(Str ''P1'', new_Product (Str ''P1'') (Str ''Rice'') (Str ''grain'') (Str ''kg'')
                           (Num 10) (Num 5))],
            productCategories = [Str ''grain''], inventorySnapshots = []\<rparr> True Missing)
        (new_ShopChain demo_runtime 1700000002000))
      = [createGenesisBlock demo_runtime 1699999999000]"
proof -
  let ?s = "\<lparr>chain = [createGenesisBlock demo_runtime 1699999999000], difficulty = 2,
      pendingTransactions = [],
      products = [(Str ''P1'', new_Product (Str ''P1'') (Str ''Rice'') (Str ''grain'') (Str ''kg'')
                     (Num 10) (Num 5))],
      productCategories = [Str ''grain''], inventorySnapshots = []\<rparr>"
  have h: "safe_store ?s"
    by (simp add: safe_store_def safe_block_def safe_product_def new_Product_def
        createGenesisBlock_def new_Block_def Let_def)
  from save_then_load_restores [OF h, of Missing "new_ShopChain demo_runtime 1700000002000"] h
  show ?thesis by simp
qed

text \<open>
  C7 as stated is about every store. The menu parses the initial quantity with
  \<open>parseInt\<close>, which gives \<open>NaN\<close> for a text that is not a number. Once the product is
  mined its quantity is \<open>NaN\<close>; \<open>JSON.stringify\<close> writes \<open>null\<close>, and the products
  that are loaded differ from those that were saved.
\<close>

theorem save_then_load_loses_NaN:
  "map_option
     (map_sum id
        (\<lambda>s. products (loadFromFile (saveToFile s True Missing)
                 (new_ShopChain demo_runtime 1700000002000)) = products s))
     (run demo_runtime
        [AddProduct (Obj [(''id'', Str ''P1''), (''name'', Str ''Rice''), (''category'', Str ''grain''),
                          (''unit'', Str ''kg''), (''initialQuantity'', NaN), (''price'', Num 5)])
           1700000000000 1700000000000,
         Mine 1700000001000 1700000001002 1700000001002]
        (new_ShopChain demo_runtime 1699999999000))
   = Some (Inr False)"
proof -
  let ?pd = "Obj [(''id'', Str ''P1''), (''name'', Str ''Rice''), (''category'', Str ''grain''),
                  (''unit'', Str ''kg''), (''initialQuantity'', NaN), (''price'', Num 5)]"
  have "get_prop ?pd ''id'' = Inr (Str ''P1'')" by simp
  from demo_add_then_mine [OF this, of 1700000001000 1700000001002 1700000001002
      1700000000000 1700000000000 1699999999000]
  obtain b1 where m: "minePendingTransactions demo_runtime 1700000001000 1700000001002 1700000001002
       (fst (addProduct demo_runtime ?pd 1700000000000 1700000000000
               (new_ShopChain demo_runtime 1699999999000))) =
     Some (Inr \<lparr>chain = [createGenesisBlock demo_runtime 1699999999000, b1], difficulty = 2,
             pendingTransactions = [],
             products = [(Str ''P1'', new_Product (Str ''P1'') (read ?pd ''name'') (read ?pd ''category'')
                 (read ?pd ''unit'') (read ?pd ''initialQuantity'') (read ?pd ''price''))],
             productCategories = [read ?pd ''category''], inventorySnapshots = []\<rparr>)"
    by (elim exE conjE) (rule that)
  show ?thesis
    by (simp add: m read_def new_Product_def loadFromFile_def saveToFile_def new_Map_def
        json_element_def json_product_def)
qed

section \<open>The reducer reads and writes the catalog only\<close>

lemma catalog_with_ledger: "catalog (with_ledger l s) = catalog s"
  by (simp add: catalog_def with_ledger_def)

lemma with_ledger_self: "catalog a = catalog b \<Longrightarrow> with_ledger a b = a"
  by (simp add: catalog_def with_ledger_def)

lemma products_with_ledger [simp]: "products (with_ledger l s) = products s"
  by (simp add: with_ledger_def)

lemma productCategories_with_ledger [simp]: "productCategories (with_ledger l s) = productCategories s"
  by (simp add: with_ledger_def)

lemma with_ledger_products:
  "with_ledger l (s\<lparr>products := x\<rparr>) = (with_ledger l s)\<lparr>products := x\<rparr>"
  by (rule shopchain.equality) (simp_all add: with_ledger_def)

lemma with_ledger_catalog_update:
  "with_ledger l (s\<lparr>products := x, productCategories := y\<rparr>)
     = (with_ledger l s)\<lparr>products := x, productCategories := y\<rparr>"
  by (rule shopchain.equality) (simp_all add: with_ledger_def)

text \<open>An outcome with the rest of the store taken from \<open>l\<close>, whether it returns or throws.\<close>

lemma thrown_at_with_ledger:
  "thrown_at (with_ledger l s) m = map_sum (map_prod id (with_ledger l)) id (thrown_at s m)"
  by (cases m) (simp_all add: thrown_at_def)

lemma handleProductAdd_with_ledger:
  "handleProductAdd d (with_ledger l s) =
     map_sum (map_prod id (with_ledger l)) (with_ledger l) (handleProductAdd d s)"
proof (cases "get_prop d ''product''")
  case (Inl e)
  then show ?thesis by (simp add: handleProductAdd_def or_throw_def thrown_at_def)
next
  case pr: (Inr pr)
  show ?thesis
  proof (cases "get_prop pr ''id''")
    case (Inl e)
    with pr show ?thesis by (simp add: handleProductAdd_def or_throw_def thrown_at_def)
  next
    case (Inr i)
    with pr show ?thesis
      by (simp add: handleProductAdd_def or_throw_def thrown_at_def with_ledger_catalog_update)
  qed
qed

lemma handleProductUpdate_with_ledger:
  "handleProductUpdate d (with_ledger l s) =
     map_sum (map_prod id (with_ledger l)) (with_ledger l) (handleProductUpdate d s)"
proof (cases "get_prop d ''productId''")
  case (Inl e)
  then show ?thesis by (simp add: handleProductUpdate_def or_throw_def thrown_at_def)
next
  case (Inr i)
  then show ?thesis
    by (cases "map_of (products s) i")
      (simp_all add: handleProductUpdate_def or_throw_def thrown_at_def with_ledger_products)
qed

lemma handleInventoryUpdate_with_ledger:
  "handleInventoryUpdate d (with_ledger l s) =
     map_sum (map_prod id (with_ledger l)) (with_ledger l) (handleInventoryUpdate d s)"
proof (cases "get_prop d ''productId''")
  case (Inl e)
  then show ?thesis by (simp add: handleInventoryUpdate_def or_throw_def thrown_at_def)
next
  case (Inr i)
  then show ?thesis
    by (cases "map_of (products s) i")
      (simp_all add: handleInventoryUpdate_def or_throw_def thrown_at_def Let_def
        with_ledger_products)
qed

lemma sell_items_with_ledger:
  "sell_items d items (with_ledger l s) =
     map_sum (map_prod id (with_ledger l)) (with_ledger l) (sell_items d items s)"
proof (induction items arbitrary: s)
  case Nil
  show ?case by simp
next
  case (Cons item r)
  show ?case
  proof (cases "get_prop item ''id''")
    case (Inl e)
    then show ?thesis by simp
  next
    case (Inr i)
    show ?thesis
    proof (cases "map_of (products s) i")
      case None
      with Inr Cons.IH [of s] show ?thesis by simp
    next
      case (Some p)
      let ?s1 = "s\<lparr>products := map_set i
                      (p\<lparr>quantity := js_sub (quantity p) (read item ''quantity''),
                         history := history p @
                            [Obj [(''type'', Str ''SALE''), (''quantity'', read item ''quantity''),
                                  (''price'', read item ''price''),
                                  (''timestamp'', read d ''timestamp''),
                                  (''orderId'', read d ''orderId'')]]\<rparr>)
                      (products s)\<rparr>"
      from Inr Some Cons.IH [of ?s1] show ?thesis by (simp add: with_ledger_products)
    qed
  qed
qed

lemma handleSale_with_ledger:
  "handleSale d (with_ledger l s) =
     map_sum (map_prod id (with_ledger l)) (with_ledger l) (handleSale d s)"
proof (cases "get_prop d ''products''")
  case (Inl e)
  then show ?thesis by (simp add: handleSale_def or_throw_def thrown_at_def)
next
  case (Inr sp)
  then show ?thesis
    by (cases "iterate sp")
      (simp_all add: handleSale_def or_throw_def thrown_at_def sell_items_with_ledger)
qed

lemma apply_transaction_with_ledger:
  "apply_transaction t (with_ledger l s) =
     map_sum (map_prod id (with_ledger l)) (with_ledger l) (apply_transaction t s)"
  by (simp add: apply_transaction_def handleProductAdd_with_ledger handleProductUpdate_with_ledger
      handleInventoryUpdate_with_ledger handleSale_with_ledger)

lemma apply_transactions_with_ledger:
  "apply_transactions ts (with_ledger l s) =
     map_sum (map_prod id (with_ledger l)) (with_ledger l) (apply_transactions ts s)"
proof (induction ts arbitrary: s)
  case Nil
  show ?case by simp
next
  case (Cons t ts)
  show ?case
    by (cases "apply_transaction t s") (simp_all add: apply_transaction_with_ledger Cons.IH id_def)
qed

lemma apply_transactions_append:
  "apply_transactions (xs @ ys) s =
     (case apply_transactions xs s of Inl e \<Rightarrow> Inl e | Inr s1 \<Rightarrow> apply_transactions ys s1)"
  by (induction xs arbitrary: s) (auto split: sum.splits)

lemma same_catalog_same_result:
  assumes "catalog a = catalog b"
  shows "map_sum fst catalog (apply_transactions ts a) = map_sum fst catalog (apply_transactions ts b)"
proof -
  from assms have "a = with_ledger a b" by (simp add: with_ledger_self)
  then have "apply_transactions ts a =
      map_sum (map_prod id (with_ledger a)) (with_ledger a) (apply_transactions ts b)"
    using apply_transactions_with_ledger [of ts a b] by simp
  then show ?thesis
    by (cases "apply_transactions ts b") (auto simp: catalog_with_ledger)
qed

section \<open>The category set covers the products\<close>

lemma set_map_set_subset:
  "set (map (\<lambda>e. g (snd e)) (map_set k v m)) \<subseteq> insert (g v) (set (map (\<lambda>e. g (snd e)) m))"
  by (induction m) auto

lemma map_set_same_category:
  assumes "map_of m k = Some p" and "category v = category p"
  shows "set (map (\<lambda>e. category (snd e)) (map_set k v m)) \<subseteq> set (map (\<lambda>e. category (snd e)) m)"
proof -
  from assms(1) have "(k, p) \<in> set m" by (rule map_of_SomeD)
  then have "category (snd (k, p)) \<in> (\<lambda>e. category (snd e)) ` set m" by (rule imageI)
  with assms(2) have b: "category v \<in> set (map (\<lambda>e. category (snd e)) m)" by simp
  have a: "set (map (\<lambda>e. category (snd e)) (map_set k v m))
      \<subseteq> insert (category v) (set (map (\<lambda>e. category (snd e)) m))"
    by (rule set_map_set_subset)
  from a b show ?thesis by blast
qed

lemma set_set_add: "set (set_add x xs) = insert x (set xs)"
  by (auto simp: set_add_def)

lemma distinct_set_add: "distinct xs \<Longrightarrow> distinct (set_add x xs)"
  by (simp add: set_add_def)

lemma categories_cover_update:
  assumes "categories_cover s" and "map_of (products s) k = Some p" and "category v = category p"
  shows "categories_cover (s\<lparr>products := map_set k v (products s)\<rparr>)"
proof -
  from assms(1) have d: "distinct (productCategories s)"
    and c: "set (map (\<lambda>e. category (snd e)) (products s)) \<subseteq> set (productCategories s)"
    by (simp_all add: categories_cover_def)
  from map_set_same_category [OF assms(2,3)] c
  have "set (map (\<lambda>e. category (snd e)) (map_set k v (products s))) \<subseteq> set (productCategories s)"
    by blast
  with d show ?thesis by (simp add: categories_cover_def)
qed

lemma handleProductAdd_cover:
  assumes "handleProductAdd d s = Inr s1" and "categories_cover s"
  shows "categories_cover s1"
proof -
  from assms(1) obtain pr i where
    s1: "s1 = s\<lparr>products := map_set i
                 (new_Product i (read pr ''name'') (read pr ''category'') (read pr ''unit'')
                    (read pr ''initialQuantity'') (read pr ''price''))
                 (products s),
               productCategories := set_add (read pr ''category'') (productCategories s)\<rparr>"
    by (auto simp: handleProductAdd_def or_throw_def split: sum.splits)
  let ?v = "new_Product i (read pr ''name'') (read pr ''category'') (read pr ''unit'')
                    (read pr ''initialQuantity'') (read pr ''price'')"
  have c: "category ?v = read pr ''category''" by (simp add: new_Product_def)
  from assms(2) have d: "distinct (productCategories s)"
    and e: "set (map (\<lambda>e. category (snd e)) (products s)) \<subseteq> set (productCategories s)"
    by (simp_all add: categories_cover_def)
  have "set (map (\<lambda>e. category (snd e)) (map_set i ?v (products s)))
      \<subseteq> insert (category ?v) (set (map (\<lambda>e. category (snd e)) (products s)))"
    by (rule set_map_set_subset)
  with e have "set (map (\<lambda>e. category (snd e)) (map_set i ?v (products s)))
      \<subseteq> set (set_add (read pr ''category'') (productCategories s))"
    unfolding c set_set_add by blast
  with d show ?thesis
    unfolding s1 by (simp add: categories_cover_def distinct_set_add)
qed

lemma handleProductUpdate_cover:
  assumes "handleProductUpdate d s = Inr s1" and "categories_cover s"
  shows "categories_cover s1"
  using assms
  by (auto simp: handleProductUpdate_def or_throw_def
      split: sum.splits option.splits if_splits intro!: categories_cover_update)

lemma handleInventoryUpdate_cover:
  assumes "handleInventoryUpdate d s = Inr s1" and "categories_cover s"
  shows "categories_cover s1"
  using assms
  by (auto simp: handleInventoryUpdate_def or_throw_def Let_def
      split: sum.splits option.splits intro!: categories_cover_update)

lemma sell_items_cover:
  "sell_items d items s = Inr s1 \<Longrightarrow> categories_cover s \<Longrightarrow> categories_cover s1"
proof (induction items arbitrary: s)
  case Nil
  then show ?case by simp
next
  case (Cons item r)
  from Cons.prems(1) obtain i where i: "get_prop item ''id'' = Inr i"
    by (auto split: sum.splits)
  show ?case
  proof (cases "map_of (products s) i")
    case None
    with i Cons show ?thesis by simp
  next
    case (Some p)
    let ?v = "p\<lparr>quantity := js_sub (quantity p) (read item ''quantity''),
                         history := history p @
                            [Obj [(''type'', Str ''SALE''), (''quantity'', read item ''quantity''),
                                  (''price'', read item ''price''),
                                  (''timestamp'', read d ''timestamp''),
                                  (''orderId'', read d ''orderId'')]]\<rparr>"
    have "categories_cover (s\<lparr>products := map_set i ?v (products s)\<rparr>)"
      using Cons.prems(2) Some by (rule categories_cover_update) simp
    moreover from i Some Cons.prems(1)
    have "sell_items d r (s\<lparr>products := map_set i ?v (products s)\<rparr>) = Inr s1" by simp
    ultimately show ?thesis by (rule Cons.IH [rotated])
  qed
qed

lemma handleSale_cover:
  assumes "handleSale d s = Inr s1" and "categories_cover s"
  shows "categories_cover s1"
  using assms
  by (auto simp: handleSale_def or_throw_def split: sum.splits dest: sell_items_cover)

lemma apply_transaction_cover:
  assumes "apply_transaction t s = Inr s1" and "categories_cover s"
  shows "categories_cover s1"
  using assms
  by (auto simp: apply_transaction_def split: if_splits
      dest: handleProductAdd_cover handleProductUpdate_cover handleInventoryUpdate_cover
        handleSale_cover)

lemma apply_transactions_cover:
  "apply_transactions ts s = Inr s1 \<Longrightarrow> categories_cover s \<Longrightarrow> categories_cover s1"
proof (induction ts arbitrary: s)
  case Nil
  then show ?case by simp
next
  case (Cons t ts)
  from Cons.prems(1) obtain s2 where a: "apply_transaction t s = Inr s2"
    and b: "apply_transactions ts s2 = Inr s1"
    by (auto split: sum.splits)
  from apply_transaction_cover [OF a Cons.prems(2)] b show ?case by (rule Cons.IH [rotated])
qed

lemma fold_set_add_absorbed: "set ys \<subseteq> set acc \<Longrightarrow> fold set_add ys acc = acc"
  by (induction ys) (simp_all add: set_add_def)

lemma new_Set_covered:
  assumes "categories_cover s"
  shows "new_Set (productCategories s @ map (\<lambda>e. category (snd e)) (products s)) = productCategories s"
proof -
  from assms have d: "distinct (productCategories s)"
    and c: "set (map (\<lambda>e. category (snd e)) (products s)) \<subseteq> set (productCategories s)"
    by (simp_all add: categories_cover_def)
  from d have "fold set_add (productCategories s) [] = productCategories s"
    using fold_set_add_distinct [of "[]" "productCategories s"] by simp
  with c show ?thesis by (simp add: new_Set_def fold_set_add_absorbed)
qed

lemma updateState_catalog:
  assumes "updateState n1 n2 b s = Inr s1" and "categories_cover s"
  shows "\<exists>s2. apply_transactions (transactions b) s = Inr s2 \<and> catalog s1 = catalog s2
           \<and> categories_cover s1"
proof -
  from assms(1) obtain s2 where a: "apply_transactions (transactions b) s = Inr s2"
    by (auto simp: updateState_def or_throw_def split: sum.splits)
  from apply_transactions_cover [OF a assms(2)] have c: "categories_cover s2" .
  then have n: "new_Set (productCategories s2 @ map (\<lambda>e. category (snd e)) (products s2))
      = productCategories s2"
    by (rule new_Set_covered)
  from assms(1) a n have "catalog s1 = catalog s2"
    by (auto simp: updateState_def or_throw_def Let_def catalog_def createInventorySnapshot_def
        split: if_splits)
  moreover from this c have "categories_cover s1"
    by (simp add: catalog_def categories_cover_def)
  ultimately show ?thesis using a by blast
qed


section \<open>The catalog is the replay of the chain\<close>

lemma mine_Inr_updateState:
  assumes "minePendingTransactions rt n0 n1 n2 s = Some (Inr s1)"
  shows "\<exists>b s2. transactions b = pendingTransactions s \<and>
           updateState n1 n2 b (s\<lparr>chain := chain s @ [b]\<rparr>) = Inr s2 \<and>
           s1 = s2\<lparr>pendingTransactions := []\<rparr> \<and> chain s1 = chain s @ [b]"
proof -
  from assms have ne: "chain s \<noteq> []"
    by (auto simp: minePendingTransactions_def getLatestBlock_def split: if_splits)
  let ?nb = "new_Block rt n0 (pendingTransactions s) (hash (last (chain s)))"
  from assms ne obtain b s2 where m: "mineBlock rt (difficulty s) ?nb = Some b"
    and u: "updateState n1 n2 b (s\<lparr>chain := chain s @ [b]\<rparr>) = Inr s2"
    and e: "s1 = s2\<lparr>pendingTransactions := []\<rparr>"
    by (auto simp: minePendingTransactions_def getLatestBlock_def or_throw_def
        split: option.splits sum.splits)
  from mineBlock_Some [OF m] obtain k where "b = (mine_step rt ^^ k) ?nb" by blast
  then have t: "transactions b = pendingTransactions s"
    by (simp add: funpow_mine_step_fields new_Block_fields)
  from updateState_ledger [OF u] e have "chain s1 = chain s @ [b]" by simp
  with t u e show ?thesis by blast
qed

lemma replay_snoc:
  assumes "replay c = Inr (catalog s)" and "catalog s0 = catalog s"
    and "apply_transactions (transactions b) s0 = Inr s2"
  shows "replay (c @ [b]) = Inr (catalog s2)"
proof -
  let ?T = "concat (map transactions c)"
  from assms(1) obtain e1 where e1: "apply_transactions ?T empty_store = Inr e1"
    and c1: "catalog e1 = catalog s"
    by (cases "apply_transactions ?T empty_store") (auto simp: replay_def)
  from c1 assms(2) have "catalog e1 = catalog s0" by simp
  then have "map_sum fst catalog (apply_transactions (transactions b) e1)
      = map_sum fst catalog (apply_transactions (transactions b) s0)"
    by (rule same_catalog_same_result)
  with assms(3) have "map_sum fst catalog (apply_transactions (transactions b) e1) = Inr (catalog s2)"
    by simp
  with e1 show ?thesis
    by (simp add: replay_def apply_transactions_append)
qed

lemma exec_replay:
  assumes "replay (chain s) = Inr (catalog s) \<and> categories_cover s"
    and "exec rt c s = Some (Inr s1)"
  shows "replay (chain s1) = Inr (catalog s1) \<and> categories_cover s1"
proof (cases "\<forall>x y z. c \<noteq> Mine x y z")
  case True
  from exec_submission_ledger [OF True assms(2)] assms(1) show ?thesis
    by (simp add: ledger_kept_def catalog_def categories_cover_def)
next
  case False
  then obtain n0 n1 n2 where "c = Mine n0 n1 n2" by blast
  with assms(2) have "minePendingTransactions rt n0 n1 n2 s = Some (Inr s1)" by simp
  from mine_Inr_updateState [OF this] obtain b s2 where
    t: "transactions b = pendingTransactions s"
    and u: "updateState n1 n2 b (s\<lparr>chain := chain s @ [b]\<rparr>) = Inr s2"
    and e: "s1 = s2\<lparr>pendingTransactions := []\<rparr>"
    and c: "chain s1 = chain s @ [b]"
    by blast
  let ?s0 = "s\<lparr>chain := chain s @ [b]\<rparr>"
  from assms(1) have "categories_cover ?s0" by (simp add: categories_cover_def)
  from updateState_catalog [OF u this] obtain s3 where
    a: "apply_transactions (transactions b) ?s0 = Inr s3"
    and k: "catalog s2 = catalog s3" and v: "categories_cover s2"
    by blast
  have "catalog ?s0 = catalog s" by (simp add: catalog_def)
  with assms(1) a have "replay (chain s @ [b]) = Inr (catalog s3)"
    by (intro replay_snoc [of _ s ?s0]) simp_all
  with k c e v show ?thesis
    by (simp add: catalog_def categories_cover_def)
qed

text \<open>
  C3. In every store that a session reaches from a fresh store, the products and the
  categories that \<open>updateState\<close> built block by block, as each block was mined, are the
  ones that replaying all transactions of the chain, from genesis and in order, builds
  from the empty catalog. The clock, the snapshots, the pending pool and the hashes have
  no part in it.
\<close>

theorem catalog_is_replay_of_chain:
  assumes "run rt cs (new_ShopChain rt now) = Some (Inr s)"
  shows "replay (chain s) = Inr (products s, productCategories s)"
proof -
  have "replay (chain (new_ShopChain rt now)) = Inr (catalog (new_ShopChain rt now))
      \<and> categories_cover (new_ShopChain rt now)"
    by (simp add: replay_def new_ShopChain_def createGenesisBlock_def new_Block_fields catalog_def
        empty_store_def categories_cover_def)
  with assms have "replay (chain s) = Inr (catalog s) \<and> categories_cover s"
    by (rule run_invariant) (rule exec_replay)
  then show ?thesis by (simp add: catalog_def)
qed

text \<open>C3, witness. The theorem on the session of the scenario: three blocks, one product.\<close>

theorem catalog_is_replay_of_chain_witness:
  "\<exists>s. run demo_runtime
           [AddProduct (Obj [(''id'', Str ''P1''), (''initialQuantity'', Num 10), (''price'', Num 5)])
              1700000000000 1700000000000,
            Mine 1700000001000 1700000001002 1700000001002,
            RecordInventoryMovement (Str ''P1'') (Num 3) (Str ''OUT'') (Str ''sold'')
              1700000002000 1700000002000,
            Mine 1700000003000 1700000003002 1700000003002]
           (new_ShopChain demo_runtime 1699999999000) = Some (Inr s)
       \<and> length (chain s) = 3
       \<and> map fst (products s) = [Str ''P1'']
       \<and> replay (chain s) = Inr (products s, productCategories s)"
proof -
  let ?pd = "Obj [(''id'', Str ''P1''), (''initialQuantity'', Num 10), (''price'', Num 5)]"
  let ?cs = "[AddProduct ?pd 1700000000000 1700000000000,
            Mine 1700000001000 1700000001002 1700000001002,
            RecordInventoryMovement (Str ''P1'') (Num 3) (Str ''OUT'') (Str ''sold'')
              1700000002000 1700000002000,
            Mine 1700000003000 1700000003002 1700000003002]"
  have "get_prop ?pd ''id'' = Inr (Str ''P1'')" by simp
  from demo_scenario_runs [OF this, of 1700000000000 1700000000000
      1700000001000 1700000001002 1700000001002 1700000002000 1700000002000
      1700000003000 1700000003002 1700000003002 1699999999000]
  obtain s b1 b2 where r: "run demo_runtime ?cs (new_ShopChain demo_runtime 1699999999000) = Some (Inr s)"
    and c: "chain s = [createGenesisBlock demo_runtime 1699999999000, b1, b2]"
    and k: "map fst (products s) = [Str ''P1'']"
    by (elim exE conjE) (rule that)
  from catalog_is_replay_of_chain [OF r]
  have "replay (chain s) = Inr (products s, productCategories s)" .
  moreover from c have "length (chain s) = 3" by simp
  ultimately show ?thesis
    using r k by (intro exI [of _ s] conjI)
qed

section \<open>The pending pool\<close>

lemma apply_transactions_pushed:
  assumes "apply_transactions ts s = Inr s3"
  shows "\<exists>s4. apply_transactions ts (s\<lparr>chain := c\<rparr>) = Inr s4"
proof -
  have "catalog (s\<lparr>chain := c\<rparr>) = catalog s" by (simp add: catalog_def)
  then have "map_sum fst catalog (apply_transactions ts (s\<lparr>chain := c\<rparr>))
      = map_sum fst catalog (apply_transactions ts s)"
    by (rule same_catalog_same_result)
  with assms show ?thesis
    by (cases "apply_transactions ts (s\<lparr>chain := c\<rparr>)") simp_all
qed

text \<open>
  C6, as amended. A mining call that returns leaves the pool empty and has appended one
  block, sealed at the difficulty of the store, whose transactions are the pool as it
  stood, in order. The call does return when the chain is not empty, the difficulty is
  feasible for the new block and the reducer accepts the transactions of the pool. No
  submission and no load empties the pool.
\<close>

theorem pool_cleared_by_mining_only:
  "(minePendingTransactions rt n0 n1 n2 s = Some (Inr s1) \<longrightarrow>
      pendingTransactions s1 = [] \<and>
      (\<exists>b. chain s1 = chain s @ [b] \<and> transactions b = pendingTransactions s \<and>
           sealed (difficulty s) b))
   \<and> (chain s \<noteq> [] \<and>
       feasible rt (difficulty s) (new_Block rt n0 (pendingTransactions s) (hash (last (chain s)))) \<and>
       (\<exists>s3. apply_transactions (pendingTransactions s) s = Inr s3)
       \<longrightarrow> (\<exists>s4. minePendingTransactions rt n0 n1 n2 s = Some (Inr s4)))
   \<and> pendingTransactions (fst (addProduct rt pd a1 a2 s)) \<noteq> []
   \<and> pendingTransactions (fst (updateProductPrice rt i p r b1 b2 s)) \<noteq> []
   \<and> pendingTransactions (fst (recordInventoryMovement rt j q ty w c1 c2 s)) \<noteq> []
   \<and> (addTransaction t s = Inr s2 \<longrightarrow> pendingTransactions s2 \<noteq> [])
   \<and> pendingTransactions (loadFromFile f s) = pendingTransactions s"
proof (intro conjI impI)
  assume m: "minePendingTransactions rt n0 n1 n2 s = Some (Inr s1)"
  from mine_Inr [OF m] obtain b k where
    b: "b = (mine_step rt ^^ k) (new_Block rt n0 (pendingTransactions s) (hash (last (chain s))))"
    and s: "sealed (difficulty s) b" and c: "chain s1 = chain s @ [b]"
    and p: "pendingTransactions s1 = []"
    by blast
  from p show "pendingTransactions s1 = []" .
  from b have "transactions b = pendingTransactions s"
    by (simp add: funpow_mine_step_fields new_Block_fields)
  with s c show "\<exists>b. chain s1 = chain s @ [b] \<and> transactions b = pendingTransactions s \<and>
           sealed (difficulty s) b"
    by blast
next
  assume a: "chain s \<noteq> [] \<and>
       feasible rt (difficulty s) (new_Block rt n0 (pendingTransactions s) (hash (last (chain s)))) \<and>
       (\<exists>s3. apply_transactions (pendingTransactions s) s = Inr s3)"
  then obtain s3 where r: "apply_transactions (pendingTransactions s) s = Inr s3" by blast
  from a have "\<exists>b. mineBlock rt (difficulty s)
               (new_Block rt n0 (pendingTransactions s) (hash (last (chain s)))) = Some b \<and>
           transactions b = pendingTransactions s \<and> previousHash b = hash (last (chain s)) \<and>
           timestamp b = n0 \<and> sealed (difficulty s) b \<and>
           minePendingTransactions rt n0 n1 n2 s =
             Some (or_throw (updateState n1 n2 b (s\<lparr>chain := chain s @ [b]\<rparr>))
                     (\<lambda>s1. Inr (s1\<lparr>pendingTransactions := []\<rparr>)))"
    by (intro mine_feasible) simp_all
  then obtain b where t: "transactions b = pendingTransactions s"
    and e: "minePendingTransactions rt n0 n1 n2 s =
             Some (or_throw (updateState n1 n2 b (s\<lparr>chain := chain s @ [b]\<rparr>))
                     (\<lambda>s1. Inr (s1\<lparr>pendingTransactions := []\<rparr>)))"
    by blast
  from apply_transactions_pushed [OF r, of "chain s @ [b]"] obtain s4 where
    "apply_transactions (pendingTransactions s) (s\<lparr>chain := chain s @ [b]\<rparr>) = Inr s4"
    by blast
  with t have "\<exists>s5. updateState n1 n2 b (s\<lparr>chain := chain s @ [b]\<rparr>) = Inr s5"
    by (simp add: updateState_def or_throw_def Let_def)
  with e show "\<exists>s4. minePendingTransactions rt n0 n1 n2 s = Some (Inr s4)"
    by (auto simp: or_throw_def)
next
  show "pendingTransactions (fst (addProduct rt pd a1 a2 s)) \<noteq> []"
    "pendingTransactions (fst (updateProductPrice rt i p r b1 b2 s)) \<noteq> []"
    "pendingTransactions (fst (recordInventoryMovement rt j q ty w c1 c2 s)) \<noteq> []"
    by (simp_all add: addProduct_def updateProductPrice_def recordInventoryMovement_def Let_def)
next
  assume "addTransaction t s = Inr s2"
  then show "pendingTransactions s2 \<noteq> []"
    by (auto simp: addTransaction_def split: if_splits)
next
  show "pendingTransactions (loadFromFile f s) = pendingTransactions s"
    by (simp add: loadFromFile_def split: storage.splits)
qed

text \<open>C6, witness. The theorem on a store with one pending transaction, which the reducer
  accepts.\<close>

theorem pool_cleared_by_mining_only_witness:
  "\<exists>s1 b. minePendingTransactions demo_runtime 1700000001000 1700000001002 1700000001002
           (fst (addProduct demo_runtime (Obj [(''id'', Str ''P1'')]) 1700000000000 1700000000000
                  (new_ShopChain demo_runtime 1699999999000))) = Some (Inr s1)
       \<and> pendingTransactions s1 = []
       \<and> chain s1 = [createGenesisBlock demo_runtime 1699999999000] @ [b]
       \<and> transactions b = [new_Transaction demo_runtime ''PRODUCT_ADD''
                 (Obj [(''product'', Obj [(''id'', Str ''P1'')]), (''timestamp'', Num 1700000000000)])
                 1700000000000]
       \<and> sealed 2 b
       \<and> pendingTransactions
            (fst (addProduct demo_runtime (Obj [(''id'', Str ''P1'')]) 1700000000000 1700000000000
                  (new_ShopChain demo_runtime 1699999999000))) \<noteq> []"
proof -
  let ?s0 = "fst (addProduct demo_runtime (Obj [(''id'', Str ''P1'')]) 1700000000000 1700000000000
                  (new_ShopChain demo_runtime 1699999999000))"
  have c0: "chain ?s0 = [createGenesisBlock demo_runtime 1699999999000]"
    and p0: "pendingTransactions ?s0 = [new_Transaction demo_runtime ''PRODUCT_ADD''
                 (Obj [(''product'', Obj [(''id'', Str ''P1'')]), (''timestamp'', Num 1700000000000)])
                 1700000000000]"
    and d0: "difficulty ?s0 = 2"
    by (simp_all add: addProduct_def new_ShopChain_def Let_def)
  have r0: "\<exists>s3. apply_transactions (pendingTransactions ?s0) ?s0 = Inr s3"
    unfolding p0
    by (simp add: apply_transaction_def handleProductAdd_def or_throw_def thrown_at_def
        new_Transaction_def)
  have n0: "chain ?s0 \<noteq> []" unfolding c0 by simp
  have f0: "feasible demo_runtime (difficulty ?s0)
      (new_Block demo_runtime 1700000001000 (pendingTransactions ?s0) (hash (last (chain ?s0))))"
    unfolding d0 by (rule demo_feasible)
  note t = pool_cleared_by_mining_only [where rt = demo_runtime and s = ?s0
      and ?n0.0 = 1700000001000 and ?n1.0 = 1700000001002 and ?n2.0 = 1700000001002
      and pd = Null and ?a1.0 = 0 and ?a2.0 = 0 and i = Null and p = Null and r = Null
      and ?b1.0 = 0 and ?b2.0 = 0 and j = Null and q = Null and ty = Null and w = Null
      and ?c1.0 = 0 and ?c2.0 = 0 and f = Missing and ?s2.0 = ?s0
      and t = "new_Transaction demo_runtime ''SALE'' (Obj []) 5"]
  from t n0 f0 r0 obtain s1 where
    m: "minePendingTransactions demo_runtime 1700000001000 1700000001002 1700000001002 ?s0
      = Some (Inr s1)"
    by blast
  from t [where ?s1.0 = s1] m obtain b where
    "pendingTransactions s1 = []" "chain s1 = chain ?s0 @ [b]"
    "transactions b = pendingTransactions ?s0" "sealed (difficulty ?s0) b"
    by blast
  moreover have "pendingTransactions ?s0 \<noteq> []" unfolding p0 by simp
  ultimately show ?thesis
    unfolding c0 p0 d0 using m by (intro exI [of _ s1] exI [of _ b] conjI)
qed

text \<open>
  C6 as stated is about every mining call. After \<open>addProduct(undefined)\<close> the pool holds a
  transaction whose product is \<open>undefined\<close>. Mining pushes the sealed block, the reducer
  throws a \<open>TypeError\<close> on \<open>product.id\<close>, and the statement that clears the pool is never
  reached: the chain has two blocks, the pool is not empty, and its contents are the
  transactions of the last block.
\<close>

theorem throwing_mine_keeps_pool:
  "map_option
     (map_sum
        (\<lambda>x. (fst x, length (chain (snd x)), pendingTransactions (snd x) = [],
               transactions (last (chain (snd x))) = pendingTransactions (snd x)))
        pendingTransactions)
     (minePendingTransactions demo_runtime 1700000001000 1700000001002 1700000001002
        (fst (addProduct demo_runtime Undefined 1700000000000 1700000000000
                (new_ShopChain demo_runtime 1699999999000))))
   = Some (Inl (TypeError, 2, False, True))"
proof -
  let ?s0 = "fst (addProduct demo_runtime Undefined 1700000000000 1700000000000
                (new_ShopChain demo_runtime 1699999999000))"
  have c0: "chain ?s0 = [createGenesisBlock demo_runtime 1699999999000]"
    and p0: "pendingTransactions ?s0 = [new_Transaction demo_runtime ''PRODUCT_ADD''
                 (Obj [(''product'', Undefined), (''timestamp'', Num 1700000000000)])
                 1700000000000]"
    and d0: "difficulty ?s0 = 2"
    by (simp_all add: addProduct_def new_ShopChain_def Let_def)
  have n0: "chain ?s0 \<noteq> []" unfolding c0 by simp
  have f0: "feasible demo_runtime (difficulty ?s0)
      (new_Block demo_runtime 1700000001000 (pendingTransactions ?s0) (hash (last (chain ?s0))))"
    unfolding d0 by (rule demo_feasible)
  from mine_feasible [OF n0 f0, of 1700000001002 1700000001002] obtain b where
    t: "transactions b = pendingTransactions ?s0"
    and e: "minePendingTransactions demo_runtime 1700000001000 1700000001002 1700000001002 ?s0 =
             Some (or_throw (updateState 1700000001002 1700000001002 b (?s0\<lparr>chain := chain ?s0 @ [b]\<rparr>))
                     (\<lambda>s1. Inr (s1\<lparr>pendingTransactions := []\<rparr>)))"
    by (elim exE conjE) (rule that)
  have u: "updateState 1700000001002 1700000001002 b (?s0\<lparr>chain := chain ?s0 @ [b]\<rparr>)
      = Inl (TypeError, ?s0\<lparr>chain := chain ?s0 @ [b]\<rparr>)"
    by (simp add: updateState_def t p0 apply_transaction_def handleProductAdd_def or_throw_def
        thrown_at_def new_Transaction_def)
  show ?thesis
    unfolding e u by (simp add: or_throw_def c0 t p0)
qed

end
